theory Spec2Isabelle
  imports Main
begin

section \<open>JavaScript strings and the regular expressions of the scanners\<close>

text \<open>
  Source text is a \<open>string\<close> of 8-bit code units. The classes below are the
  JavaScript classes \<open>\s\<close>, \<open>\w\<close>, \<open>[\w-]\<close> and \<open>[\w$-]\<close> restricted to these units.
\<close>

definition isSpace :: "char \<Rightarrow> bool" where
  "isSpace c = (let n = (of_char c :: nat) in (9 \<le> n \<and> n \<le> 13) \<or> n = 32 \<or> n = 160)"

definition isWord :: "char \<Rightarrow> bool" where
  "isWord c = (let n = (of_char c :: nat) in
     (48 \<le> n \<and> n \<le> 57) \<or> (65 \<le> n \<and> n \<le> 90) \<or> n = 95 \<or> (97 \<le> n \<and> n \<le> 122))"

definition isName :: "char \<Rightarrow> bool" where
  "isName c = (isWord c \<or> c = CHR ''-'')"

definition isToken :: "char \<Rightarrow> bool" where
  "isToken c = (isWord c \<or> c = CHR ''$'' \<or> c = CHR ''-'')"

definition isQuote :: "char \<Rightarrow> bool" where
  "isQuote c = (c = CHR 0x22 \<or> c = CHR 0x27)"

definition isLineTerminator :: "char \<Rightarrow> bool" where
  "isLineTerminator c = (c = CHR 0x0A \<or> c = CHR 0x0D)"

definition startsWith :: "string \<Rightarrow> string \<Rightarrow> bool" where
  "startsWith s p = (take (length p) s = p)"

definition trimStart :: "string \<Rightarrow> string" where
  "trimStart s = dropWhile isSpace s"

definition trim :: "string \<Rightarrow> string" where
  "trim s = rev (dropWhile isSpace (rev (dropWhile isSpace s)))"

fun splitOn :: "char \<Rightarrow> string \<Rightarrow> string list" where
  "splitOn d [] = [[]]"
| "splitOn d (c # cs) =
     (if c = d then [] # splitOn d cs
      else (case splitOn d cs of [] \<Rightarrow> [[c]] | l # ls \<Rightarrow> (c # l) # ls))"

definition splitLines :: "string \<Rightarrow> string list" where
  "splitLines content = splitOn (CHR 0x0A) content"

fun joinWith :: "string \<Rightarrow> string list \<Rightarrow> string" where
  "joinWith d [] = []"
| "joinWith d [x] = x"
| "joinWith d (x # y # ys) = x @ d @ joinWith d (y # ys)"

text \<open>\<open>s.indexOf(p)\<close> for a non-empty pattern: the first offset at which \<open>p\<close> starts.\<close>

fun indexOf :: "string \<Rightarrow> string \<Rightarrow> nat option" where
  "indexOf [] p = (if p = [] then Some 0 else None)"
| "indexOf (c # cs) p =
     (if startsWith (c # cs) p then Some 0 else map_option Suc (indexOf cs p))"

definition isCommentLine :: "string \<Rightarrow> bool" where
  "isCommentLine l = startsWith (trim l) ''//''"

text \<open>
  \<open>matchAll\<close> with a global pattern: the engine tries the pattern at every offset from the
  left; after a match it goes on from the end of the match (one further after an empty
  match). \<open>m\<close> is the pattern anchored at the head of its argument and returns the captures
  with the length of the match.
\<close>

fun matchAll :: "(string \<Rightarrow> ('a \<times> nat) option) \<Rightarrow> nat \<Rightarrow> string \<Rightarrow> (nat \<times> 'a) list" where
  "matchAll m i [] = []"
| "matchAll m i (c # cs) =
     (case m (c # cs) of
        None \<Rightarrow> matchAll m (Suc i) cs
      | Some (a, n) \<Rightarrow> (i, a) # matchAll m (Suc (i + (n - 1))) (drop (n - 1) cs))"

text \<open>The first match only (\<open>String.prototype.match\<close> without the global flag).\<close>

fun matchFirst :: "(string \<Rightarrow> ('a \<times> nat) option) \<Rightarrow> nat \<Rightarrow> string \<Rightarrow> (nat \<times> 'a) option" where
  "matchFirst m i [] = None"
| "matchFirst m i (c # cs) =
     (case m (c # cs) of
        None \<Rightarrow> matchFirst m (Suc i) cs
      | Some (a, n) \<Rightarrow> Some (i, a))"

record ForwardStatement =
  fwdPath :: string
  fwdPrefix :: "string option"
  fwdLine :: nat

text \<open>
  The tail \<open>(?:\s+as\s+([\w-]+)-\*)?\<close> of \<open>FORWARD_PATTERN\<close>. The greedy run \<open>[\w-]+\<close> takes
  every name character; since \<open>*\<close> is none, the pattern can only end with the last hyphen of
  the run followed by \<open>*\<close>, and the capture is the run without that hyphen.
\<close>

definition asPrefixClause :: "string \<Rightarrow> (string \<times> nat) option" where
  "asPrefixClause s =
     (let w1 = takeWhile isSpace s; r1 = dropWhile isSpace s in
      if w1 = [] \<or> \<not> startsWith r1 ''as'' then None
      else let r2 = drop 2 r1; w2 = takeWhile isSpace r2; r3 = dropWhile isSpace r2;
               run = takeWhile isName r3; r4 = dropWhile isName r3 in
        if w2 = [] \<or> length run < 2 \<or> last run \<noteq> CHR ''-'' \<or> \<not> startsWith r4 ''*'' then None
        else Some (butlast run, length w1 + 2 + length w2 + length run + 1))"

text \<open>\<open>@keyword\s+["']([^"']+)["']\<close>, the common head of the two import patterns.\<close>

definition quotedPathAfter :: "string \<Rightarrow> string \<Rightarrow> (string \<times> nat) option" where
  "quotedPathAfter kw s =
     (if \<not> startsWith s kw then None
      else let r1 = drop (length kw) s; w = takeWhile isSpace r1; r2 = dropWhile isSpace r1 in
        (case r2 of
           [] \<Rightarrow> None
         | q # r3 \<Rightarrow>
             let p = takeWhile (\<lambda>c. \<not> isQuote c) r3; r4 = dropWhile (\<lambda>c. \<not> isQuote c) r3 in
             if w = [] \<or> \<not> isQuote q \<or> p = [] \<or> r4 = [] then None
             else Some (p, length kw + length w + 1 + length p + 1)))"

definition FORWARD_PATTERN :: "string \<Rightarrow> ((string \<times> string option) \<times> nat) option" where
  "FORWARD_PATTERN s =
     (case quotedPathAfter ''@forward'' s of
        None \<Rightarrow> None
      | Some (p, n) \<Rightarrow>
          (case asPrefixClause (drop n s) of
             None \<Rightarrow> Some ((p, None), n)
           | Some (x, k) \<Rightarrow> Some ((p, Some x), n + k)))"

definition forwardsOfLine :: "nat \<Rightarrow> string \<Rightarrow> ForwardStatement list" where
  "forwardsOfLine lineNumber l =
     (if isCommentLine l then []
      else map (\<lambda>(i, (p, x)).
                  \<lparr>fwdPath = p,
                   fwdPrefix = (case x of None \<Rightarrow> None | Some y \<Rightarrow> Some (y @ ''-'')),
                   fwdLine = lineNumber\<rparr>)
               (matchAll FORWARD_PATTERN 0 l))"

fun forwardsFrom :: "nat \<Rightarrow> string list \<Rightarrow> ForwardStatement list" where
  "forwardsFrom lineNumber [] = []"
| "forwardsFrom lineNumber (l # ls) = forwardsOfLine lineNumber l @ forwardsFrom (Suc lineNumber) ls"

definition parseForwardStatements :: "string \<Rightarrow> ForwardStatement list" where
  "parseForwardStatements content = forwardsFrom 0 (splitLines content)"

section \<open>Paths: the POSIX functions of \<open>node:path\<close>\<close>

text \<open>
  The resolver calls \<open>path.dirname\<close>, \<open>path.basename\<close>, \<open>path.join\<close> and \<open>path.resolve\<close>.
  They are library functions; the definitions follow their POSIX implementation:
  \<open>normalizeString\<close> drops empty and \<open>.\<close> segments and lets \<open>..\<close> remove the segment before it
  (above the start of a relative path it is kept).
\<close>

fun normalizeSegments :: "bool \<Rightarrow> string list \<Rightarrow> string list \<Rightarrow> string list" where
  "normalizeSegments allowAboveRoot acc [] = rev acc"
| "normalizeSegments allowAboveRoot acc (seg # segs) =
     (if seg = [] \<or> seg = ''.'' then normalizeSegments allowAboveRoot acc segs
      else if seg = ''..'' then
        (case acc of
           [] \<Rightarrow> normalizeSegments allowAboveRoot (if allowAboveRoot then [''..''] else []) segs
         | lastSeg # below \<Rightarrow>
             if lastSeg = ''..'' then
               normalizeSegments allowAboveRoot (if allowAboveRoot then ''..'' # acc else acc) segs
             else normalizeSegments allowAboveRoot below segs)
      else normalizeSegments allowAboveRoot (seg # acc) segs)"

definition normalizeString :: "string \<Rightarrow> bool \<Rightarrow> string" where
  "normalizeString p allowAboveRoot =
     joinWith ''/'' (normalizeSegments allowAboveRoot [] (splitOn (CHR ''/'') p))"

definition isAbsolute :: "string \<Rightarrow> bool" where
  "isAbsolute p = (case p of [] \<Rightarrow> False | c # cs \<Rightarrow> c = CHR ''/'')"

definition normalize :: "string \<Rightarrow> string" where
  "normalize p =
     (if p = [] then ''.''
      else let trailingSeparator = (last p = CHR ''/'');
               q = normalizeString p (\<not> isAbsolute p) in
        if q = [] then (if isAbsolute p then ''/'' else if trailingSeparator then ''./'' else ''.'')
        else let q' = (if trailingSeparator then q @ ''/'' else q) in
          if isAbsolute p then ''/'' @ q' else q')"

definition pathJoin :: "string list \<Rightarrow> string" where
  "pathJoin args =
     (case filter (\<lambda>a. a \<noteq> []) args of
        [] \<Rightarrow> ''.''
      | a # as \<Rightarrow> normalize (joinWith ''/'' (a # as)))"

text \<open>
  \<open>path.resolve\<close> goes through its arguments from the right until the path built so far is
  absolute, and takes the working directory of the process when none of them is.
\<close>

fun resolveParts :: "string list \<Rightarrow> string \<Rightarrow> string" where
  "resolveParts [] resolvedPath = resolvedPath"
| "resolveParts (p # ps) resolvedPath =
     (if p = [] then resolveParts ps resolvedPath
      else if isAbsolute p then p @ ''/'' @ resolvedPath
      else resolveParts ps (p @ ''/'' @ resolvedPath))"

definition pathResolve :: "string \<Rightarrow> string list \<Rightarrow> string" where
  "pathResolve cwd args =
     (let resolvedPath = resolveParts (rev (cwd # args)) [] in
      if isAbsolute resolvedPath then ''/'' @ normalizeString resolvedPath False
      else let q = normalizeString resolvedPath True in if q = [] then ''.'' else q)"

definition dirname :: "string \<Rightarrow> string" where
  "dirname p =
     (case p of
        [] \<Rightarrow> ''.''
      | c # cs \<Rightarrow>
          let hasRoot = (c = CHR ''/'');
              afterBase = dropWhile (\<lambda>x. x \<noteq> CHR ''/'') (dropWhile (\<lambda>x. x = CHR ''/'') (rev cs));
              endIx = length afterBase in
          if afterBase = [] then (if hasRoot then ''/'' else ''.'')
          else if hasRoot \<and> endIx = 1 then ''//''
          else take endIx p)"

definition basename :: "string \<Rightarrow> string" where
  "basename p = rev (takeWhile (\<lambda>x. x \<noteq> CHR ''/'') (dropWhile (\<lambda>x. x = CHR ''/'') (rev p)))"

section \<open>The file system as one operation sees it\<close>

text \<open>
  \<open>fileExists\<close> is \<open>fs.access\<close> with \<open>R_OK\<close>: true of a readable file and of a directory.
  \<open>readFile\<close> reads through the cache and throws when the read fails, as it does for a
  directory or a missing file. \<open>readPackageJson\<close> is \<open>JSON.parse\<close> of what \<open>readFile\<close>
  returns, and null on any failure; \<open>JSON.parse\<close> is a parameter of the environment, its result
  typed as the interface \<open>SassPackageJson\<close> declares it (\<open>None\<close>: it throws, or returns null).
\<close>

datatype node = File string | Directory

record SassPackageJson =
  sass :: "string option"
  style :: "string option"

record env =
  nodes :: "(string \<times> node) list"
  cwd :: string
  jsonParse :: "string \<Rightarrow> SassPackageJson option"

datatype error = ReadError string | IllegalLine nat

definition fileExists :: "env \<Rightarrow> string \<Rightarrow> bool" where
  "fileExists e p = (map_of (nodes e) p \<noteq> None)"

definition readFile :: "env \<Rightarrow> string \<Rightarrow> error + string" where
  "readFile e p = (case map_of (nodes e) p of Some (File c) \<Rightarrow> Inr c | _ \<Rightarrow> Inl (ReadError p))"

definition readPackageJson :: "env \<Rightarrow> string \<Rightarrow> SassPackageJson option" where
  "readPackageJson e p = (case readFile e p of Inl err \<Rightarrow> None | Inr content \<Rightarrow> jsonParse e content)"

section \<open>ModuleResolver\<close>

text \<open>The loop \<open>for (const candidate of candidates)\<close>: the first candidate that exists.\<close>

fun firstExisting :: "env \<Rightarrow> string list \<Rightarrow> string option" where
  "firstExisting e [] = None"
| "firstExisting e (candidate # candidates) =
     (if fileExists e candidate then Some candidate else firstExisting e candidates)"

definition relativeCandidates :: "string \<Rightarrow> string list" where
  "relativeCandidates basePath =
     [basePath @ ''.scss'',
      basePath @ ''.sass'',
      basePath @ ''/_index.scss'',
      basePath @ ''/_index.sass'',
      basePath @ ''/index.scss'',
      basePath @ ''/index.sass'',
      pathJoin [dirname basePath, ''_'' @ basename basePath @ ''.scss''],
      pathJoin [dirname basePath, ''_'' @ basename basePath @ ''.sass'']]"

definition resolveRelativePath :: "env \<Rightarrow> string \<Rightarrow> string \<Rightarrow> string option" where
  "resolveRelativePath e modulePath currentFilePath =
     (let currentDir = dirname currentFilePath;
          basePath = pathResolve (cwd e) [currentDir, modulePath]
      in firstExisting e (relativeCandidates basePath))"

definition packageCandidates :: "string \<Rightarrow> string list" where
  "packageCandidates packagePath =
     [pathJoin [packagePath, ''index.scss''],
      pathJoin [packagePath, ''_index.scss''],
      pathJoin [packagePath, ''index.sass''],
      pathJoin [packagePath, ''_index.sass''],
      packagePath @ ''.scss'',
      packagePath @ ''.sass'',
      pathJoin [dirname packagePath, ''_'' @ basename packagePath @ ''.scss''],
      pathJoin [dirname packagePath, ''_'' @ basename packagePath @ ''.sass'']]"

text \<open>\<open>packageJson.sass || packageJson.style\<close>: the empty string is falsy.\<close>

definition sassEntry :: "SassPackageJson \<Rightarrow> string option" where
  "sassEntry packageJson =
     (case sass packageJson of
        Some s \<Rightarrow> if s \<noteq> [] then Some s else style packageJson
      | None \<Rightarrow> style packageJson)"

definition manifestEntry :: "env \<Rightarrow> string \<Rightarrow> string option" where
  "manifestEntry e packagePath =
     (let packageJsonPath = pathJoin [packagePath, ''package.json''] in
      if fileExists e packageJsonPath then
        (case readPackageJson e packageJsonPath of
           None \<Rightarrow> None
         | Some packageJson \<Rightarrow>
             (case sassEntry packageJson of
                None \<Rightarrow> None
              | Some entry \<Rightarrow>
                  if entry \<noteq> [] then
                    (let entryPath = pathJoin [packagePath, entry] in
                     if fileExists e entryPath then Some entryPath else None)
                  else None))
      else None)"

definition resolveInNodeModules :: "env \<Rightarrow> string \<Rightarrow> string \<Rightarrow> string option" where
  "resolveInNodeModules e modulePath nodeModulesPath =
     (let packagePath = pathJoin [nodeModulesPath, modulePath] in
      case manifestEntry e packagePath of
        Some entryPath \<Rightarrow> Some entryPath
      | None \<Rightarrow> firstExisting e (packageCandidates packagePath))"

text \<open>
  The measure of the upward walk of \<open>resolvePackagePath\<close>: \<open>dirname\<close> either returns its
  argument or a path of smaller measure.
\<close>

definition dirMeasure :: "string \<Rightarrow> nat" where
  "dirMeasure p = (if p = ''/'' \<or> p = ''.'' then 0 else if p = ''//'' then 1 else length p + 2)"

lemma dropWhile_twice_shorter:
  assumes "dropWhile (\<lambda>x. \<not> P x) (dropWhile P xs) \<noteq> []"
  shows "Suc (length (dropWhile (\<lambda>x. \<not> P x) (dropWhile P xs))) \<le> length xs"
proof -
  let ?A = "dropWhile P xs"
  have ne: "?A \<noteq> []"
  proof
    assume "?A = []"
    then have "dropWhile (\<lambda>x. \<not> P x) ?A = []" by (simp only: dropWhile.simps)
    with assms show False by (simp only: not_True_eq_False simp_thms)
  qed
  then obtain a as where A: "?A = a # as" by (cases ?A) auto
  have "\<not> P a" using A hd_dropWhile [of P xs] ne by (metis list.sel(1))
  then have "dropWhile (\<lambda>x. \<not> P x) ?A = dropWhile (\<lambda>x. \<not> P x) as" using A by simp
  moreover have "length (dropWhile (\<lambda>x. \<not> P x) as) \<le> length as" by (rule length_dropWhile_le)
  moreover have "length ?A \<le> length xs" by (rule length_dropWhile_le)
  ultimately show ?thesis using A by simp
qed

lemma dirMeasure_long: "3 \<le> length p \<Longrightarrow> dirMeasure p = length p + 2"
  by (auto simp: dirMeasure_def)

lemma dirMeasure_le: "dirMeasure d \<le> length d + 2"
  by (simp add: dirMeasure_def)

lemma dirname_noBase:
  assumes "dropWhile (\<lambda>x. x \<noteq> CHR ''/'') (dropWhile (\<lambda>x. x = CHR ''/'') (rev cs)) = []"
  shows "dirname (c # cs) = (if c = CHR ''/'' then ''/'' else ''.'')"
  unfolding dirname_def list.case Let_def
  by (simp only: assms if_True simp_thms)

lemma dirname_base:
  assumes "dropWhile (\<lambda>x. x \<noteq> CHR ''/'') (dropWhile (\<lambda>x. x = CHR ''/'') (rev cs)) \<noteq> []"
  shows "dirname (c # cs) = ''//'' \<or>
   dirname (c # cs) =
     take (length (dropWhile (\<lambda>x. x \<noteq> CHR ''/'') (dropWhile (\<lambda>x. x = CHR ''/'') (rev cs)))) (c # cs)"
  unfolding dirname_def list.case Let_def
  by (simp only: assms if_False split: if_split) blast

lemma dirname_cases:
  "dirname p = p \<or> (dirname p = ''/'' \<or> dirname p = ''.'') \<and> p \<noteq> ''/'' \<and> p \<noteq> ''.''
   \<or> 3 \<le> length p \<and> (dirname p = ''//'' \<or> length (dirname p) + 2 \<le> length p)"
proof (cases p)
  case Nil
  have "dirname [] = ''.''" by (simp add: dirname_def)
  then show ?thesis unfolding Nil by simp
next
  case (Cons c cs)
  define B where "B = dropWhile (\<lambda>x. x \<noteq> CHR ''/'') (dropWhile (\<lambda>x. x = CHR ''/'') (rev cs))"
  show ?thesis
  proof (cases "B = []")
    case True
    have "dirname (c # cs) = (if c = CHR ''/'' then ''/'' else ''.'')"
      using True [unfolded B_def] by (rule dirname_noBase)
    then show ?thesis unfolding Cons by (cases "c = CHR ''/''") auto
  next
    case False
    have "Suc (length B) \<le> length (rev cs)"
      unfolding B_def using False [unfolded B_def] by (rule dropWhile_twice_shorter)
    then have len: "length B + 2 \<le> length (c # cs)" by simp
    have B1: "1 \<le> length B" using False by (cases B) simp_all
    have "dirname (c # cs) = ''//'' \<or> dirname (c # cs) = take (length B) (c # cs)"
      unfolding B_def using False [unfolded B_def] by (rule dirname_base)
    moreover have "length (take (length B) (c # cs)) + 2 \<le> length (c # cs)"
      using len by simp
    ultimately have "dirname (c # cs) = ''//'' \<or> length (dirname (c # cs)) + 2 \<le> length (c # cs)"
      by metis
    moreover have "3 \<le> length (c # cs)" using len B1 by linarith
    ultimately show ?thesis unfolding Cons by blast
  qed
qed

lemma dirMeasure_root: "dirMeasure ''/'' = 0" "dirMeasure ''.'' = 0" "dirMeasure ''//'' = 1"
  by (simp_all add: dirMeasure_def)

lemma dirMeasure_pos: "p \<noteq> ''/'' \<Longrightarrow> p \<noteq> ''.'' \<Longrightarrow> 0 < dirMeasure p"
  by (simp add: dirMeasure_def)

lemma dirname_measure: "dirname p \<noteq> p \<Longrightarrow> dirMeasure (dirname p) < dirMeasure p"
proof -
  assume neq: "dirname p \<noteq> p"
  consider (root) "dirname p = ''/'' \<or> dirname p = ''.''" "p \<noteq> ''/''" "p \<noteq> ''.''"
    | (dbl) "3 \<le> length p" "dirname p = ''//''"
    | (cut) "3 \<le> length p" "length (dirname p) + 2 \<le> length p"
    using dirname_cases [of p] neq by blast
  then show ?thesis
  proof cases
    case root
    have "dirMeasure (dirname p) = 0" using root(1) dirMeasure_root by metis
    moreover have "0 < dirMeasure p" using root(2,3) by (rule dirMeasure_pos)
    ultimately show ?thesis by linarith
  next
    case dbl
    have "dirMeasure (dirname p) = 1" using dbl(2) dirMeasure_root by metis
    moreover have "dirMeasure p = length p + 2" using dbl(1) by (rule dirMeasure_long)
    ultimately show ?thesis using dbl(1) by linarith
  next
    case cut
    have "dirMeasure (dirname p) \<le> length (dirname p) + 2" by (rule dirMeasure_le)
    moreover have "dirMeasure p = length p + 2" using cut(1) by (rule dirMeasure_long)
    ultimately show ?thesis using cut(2) by linarith
  qed
qed

text \<open>
  \<open>resolvePackagePath\<close>: the \<open>while (true)\<close> loop that walks from the directory of the current
  file towards the root, and stops after the workspace root or when \<open>dirname\<close> returns its
  argument.
\<close>

function packageWalk :: "env \<Rightarrow> string \<Rightarrow> string \<Rightarrow> string \<Rightarrow> string option" where
  "packageWalk e modulePath workspaceRoot currentDir =
     (let nodeModulesPath = pathJoin [currentDir, ''node_modules''];
          resolved = (if fileExists e nodeModulesPath
                      then resolveInNodeModules e modulePath nodeModulesPath else None)
      in case resolved of
           Some r \<Rightarrow> Some r
         | None \<Rightarrow>
             let parentDir = dirname currentDir in
             if parentDir = currentDir \<or> currentDir = workspaceRoot then None
             else packageWalk e modulePath workspaceRoot parentDir)"
  by pat_completeness auto
termination
  by (relation "measure (\<lambda>(e, modulePath, workspaceRoot, currentDir). dirMeasure currentDir)")
     (auto simp: dirname_measure)

declare packageWalk.simps [simp del]

definition resolvePackagePath :: "env \<Rightarrow> string \<Rightarrow> string \<Rightarrow> string \<Rightarrow> string option" where
  "resolvePackagePath e modulePath currentFilePath workspaceRoot =
     packageWalk e modulePath workspaceRoot (dirname currentFilePath)"

definition resolveModule :: "env \<Rightarrow> string \<Rightarrow> string \<Rightarrow> string \<Rightarrow> string option" where
  "resolveModule e modulePath currentFilePath workspaceRoot =
     (if startsWith modulePath ''sass:'' then None
      else if startsWith modulePath ''./'' \<or> startsWith modulePath ''../'' then
        resolveRelativePath e modulePath currentFilePath
      else resolvePackagePath e modulePath currentFilePath workspaceRoot)"

text \<open>Whatever the resolver returns passed \<open>fileExists\<close>.\<close>

lemma firstExisting_exists: "firstExisting e cs = Some p \<Longrightarrow> fileExists e p"
  by (induction cs) (auto split: if_splits)

lemma firstExisting_member: "firstExisting e cs = Some p \<Longrightarrow> p \<in> set cs"
  by (induction cs) (auto split: if_splits)

lemma manifestEntry_exists: "manifestEntry e pp = Some p \<Longrightarrow> fileExists e p"
  by (auto simp: manifestEntry_def Let_def split: if_splits option.splits)

lemma resolveInNodeModules_exists: "resolveInNodeModules e m nm = Some p \<Longrightarrow> fileExists e p"
  by (auto simp: resolveInNodeModules_def Let_def split: option.splits
           dest: manifestEntry_exists firstExisting_exists)

lemma packageWalk_exists: "packageWalk e m root d = Some p \<Longrightarrow> fileExists e p"
proof (induction e m root d rule: packageWalk.induct)
  case (1 e modulePath workspaceRoot currentDir)
  show ?case
  proof (cases "fileExists e (pathJoin [currentDir, ''node_modules''])
                \<and> resolveInNodeModules e modulePath (pathJoin [currentDir, ''node_modules'']) \<noteq> None")
    case True
    then show ?thesis
      using "1.prems" resolveInNodeModules_exists
      by (subst (asm) packageWalk.simps) (auto simp: Let_def)
  next
    case False
    then show ?thesis
      using "1.prems" "1.IH"
      by (subst (asm) packageWalk.simps) (auto simp: Let_def split: if_splits)
  qed
qed

lemma resolveModule_exists: "resolveModule e m cur root = Some p \<Longrightarrow> fileExists e p"
  by (auto simp: resolveModule_def resolveRelativePath_def resolvePackagePath_def Let_def
           split: if_splits dest: firstExisting_exists packageWalk_exists)

section \<open>SassParser\<close>

record MixinParameter =
  paramName :: string
  defaultValue :: "string option"
  paramLine :: nat
  paramColumn :: nat

text \<open>
  \<open>MixinDefinition\<close> and \<open>VariableDefinition\<close>: the objects the scanner builds, with the
  optional \<open>parameters\<close> of the one and the optional \<open>value\<close> of the other.
\<close>

record Definition =
  name :: string
  filePath :: string
  line :: nat
  column :: nat
  parameters :: "MixinParameter list option"
  varValue :: "string option"

text \<open>\<open>MIXIN_PATTERN = /@mixin\s+([\w-]+)(?:\s*\(|\s*\{)/g\<close>, anchored.\<close>

definition MIXIN_PATTERN :: "string \<Rightarrow> (string \<times> nat) option" where
  "MIXIN_PATTERN s =
     (if \<not> startsWith s ''@mixin'' then None
      else let r1 = drop 6 s; w1 = takeWhile isSpace r1; r2 = dropWhile isSpace r1;
               nm = takeWhile isName r2; r3 = dropWhile isName r2;
               w2 = takeWhile isSpace r3; r4 = dropWhile isSpace r3 in
        if w1 = [] \<or> nm = [] then None
        else (case r4 of
                [] \<Rightarrow> None
              | c # r5 \<Rightarrow>
                  if c = CHR ''('' \<or> c = CHR ''{''
                  then Some (nm, 6 + length w1 + length nm + length w2 + 1) else None))"

text \<open>\<open>VARIABLE_PATTERN = /\$[\w-]+\s*:/g\<close>, anchored; the capture is the whole match.\<close>

definition VARIABLE_PATTERN :: "string \<Rightarrow> (string \<times> nat) option" where
  "VARIABLE_PATTERN s =
     (case s of
        [] \<Rightarrow> None
      | d # r1 \<Rightarrow>
          let nm = takeWhile isName r1; r2 = dropWhile isName r1;
              w = takeWhile isSpace r2; r3 = dropWhile isSpace r2 in
          if d = CHR ''$'' \<and> nm \<noteq> [] \<and> startsWith r3 '':''
          then Some (d # nm @ w @ '':'', 1 + length nm + length w + 1) else None)"

text \<open>
  \<open>extractArgumentsString\<close>: the characters between the first \<open>(\<close> at or after the start of
  \<open>startLine\<close> and the \<open>)\<close> that closes it; a line break inside the group is kept.
\<close>

datatype scan = Done string | More string nat bool

fun extractChars :: "string \<Rightarrow> string \<Rightarrow> nat \<Rightarrow> bool \<Rightarrow> scan" where
  "extractChars [] argsString depth foundStart = More argsString depth foundStart"
| "extractChars (ch # rest) argsString depth foundStart =
     (let foundStart1 = (foundStart \<or> ch = CHR ''('');
          depth1 = (if ch = CHR ''('' then depth + 1 else depth) in
      if ch = CHR ''('' \<and> depth1 = 1 then extractChars rest argsString depth1 foundStart1
      else if foundStart1 \<and> depth1 > 0 then
        (if ch = CHR '')'' then
           (if depth1 - 1 = 0 then Done argsString
            else extractChars rest (argsString @ [ch]) (depth1 - 1) foundStart1)
         else extractChars rest (argsString @ [ch]) depth1 foundStart1)
      else extractChars rest argsString depth1 foundStart1)"

fun extractLines :: "string list \<Rightarrow> string \<Rightarrow> nat \<Rightarrow> bool \<Rightarrow> string option" where
  "extractLines [] argsString depth foundStart = None"
| "extractLines (l # ls) argsString depth foundStart =
     (case extractChars l argsString depth foundStart of
        Done a \<Rightarrow> Some a
      | More a d f \<Rightarrow> extractLines ls (if f \<and> d > 0 then a @ [CHR 0x0A] else a) d f)"

definition extractArgumentsString :: "string list \<Rightarrow> nat \<Rightarrow> string option" where
  "extractArgumentsString lines startLine = extractLines (drop startLine lines) [] 0 False"

text \<open>\<open>splitArguments\<close>: split at the commas outside brackets; the depth may go below zero.\<close>

fun splitLoop :: "string \<Rightarrow> string list \<Rightarrow> string \<Rightarrow> int \<Rightarrow> string list \<times> string" where
  "splitLoop [] tokens current depth = (tokens, current)"
| "splitLoop (ch # rest) tokens current depth =
     (let depth1 = (if ch = CHR ''('' \<or> ch = CHR ''{'' then depth + 1 else depth);
          depth2 = (if ch = CHR '')'' \<or> ch = CHR ''}'' then depth1 - 1 else depth1) in
      if ch = CHR '','' \<and> depth2 = 0 then splitLoop rest (tokens @ [trim current]) [] depth2
      else splitLoop rest tokens (current @ [ch]) depth2)"

definition splitArguments :: "string \<Rightarrow> string list" where
  "splitArguments argsString =
     (case splitLoop argsString [] [] 0 of
        (tokens, current) \<Rightarrow> if trim current \<noteq> [] then tokens @ [trim current] else tokens)"

text \<open>
  \<open>calculateParameterPosition\<close> searches \<open>new RegExp("\\$\\s*" + paramName + "\\b")\<close> in the
  ten lines from \<open>startLine\<close>. \<open>paramName\<close> was captured by \<open>[\w-]+\<close>, so the pattern reads it
  literally; \<open>\b\<close> holds when exactly one of the characters around it is a word character.
\<close>

definition wordBoundary :: "string \<Rightarrow> string \<Rightarrow> bool" where
  "wordBoundary before after =
     ((before \<noteq> [] \<and> isWord (last before)) \<noteq> (after \<noteq> [] \<and> isWord (hd after)))"

definition paramPattern :: "string \<Rightarrow> string \<Rightarrow> (unit \<times> nat) option" where
  "paramPattern pname s =
     (case s of
        [] \<Rightarrow> None
      | d # r1 \<Rightarrow>
          let w = takeWhile isSpace r1; r2 = dropWhile isSpace r1 in
          if d = CHR ''$'' \<and> startsWith r2 pname
               \<and> wordBoundary pname (drop (length pname) r2)
          then Some ((), 1 + length w + length pname) else None)"

fun searchParameter :: "string \<Rightarrow> nat \<Rightarrow> string list \<Rightarrow> (nat \<times> nat) option" where
  "searchParameter pname i [] = None"
| "searchParameter pname i (l # ls) =
     (case matchFirst (paramPattern pname) 0 l of
        Some (index, u) \<Rightarrow> Some (i, index)
      | None \<Rightarrow> searchParameter pname (Suc i) ls)"

definition calculateParameterPosition :: "string \<Rightarrow> string list \<Rightarrow> nat \<Rightarrow> nat \<times> nat" where
  "calculateParameterPosition pname lines startLine =
     (case searchParameter pname startLine (take 10 (drop startLine lines)) of
        Some pos \<Rightarrow> pos
      | None \<Rightarrow> (startLine, 0))"

text \<open>
  \<open>parseParameter\<close> matches \<open>/\$\s*([\w-]+)(?:\s*:\s*(.+))?/\<close> in the token. The default value
  is the rest of the line after the colon and the white space behind it; when nothing but
  white space follows the colon the capture trims to the empty string and the value is null.
\<close>

definition parameterHead :: "string \<Rightarrow> ((string \<times> string) \<times> nat) option" where
  "parameterHead s =
     (case s of
        [] \<Rightarrow> None
      | d # r1 \<Rightarrow>
          let w = takeWhile isSpace r1; r2 = dropWhile isSpace r1;
              nm = takeWhile isName r2; r3 = dropWhile isName r2 in
          if d = CHR ''$'' \<and> nm \<noteq> [] then Some ((nm, r3), 1 + length w + length nm) else None)"

definition defaultOf :: "string \<Rightarrow> string option" where
  "defaultOf afterName =
     (let r1 = dropWhile isSpace afterName in
      if startsWith r1 '':'' then
        (let r2 = dropWhile isSpace (drop 1 r1) in
         if r2 = [] then None else Some (trim (takeWhile (\<lambda>c. \<not> isLineTerminator c) r2)))
      else None)"

definition parseParameter :: "string \<Rightarrow> string list \<Rightarrow> nat \<Rightarrow> MixinParameter option" where
  "parseParameter tok lines baseLine =
     (case matchFirst parameterHead 0 tok of
        None \<Rightarrow> None
      | Some (i, (nm, afterName)) \<Rightarrow>
          (case calculateParameterPosition nm lines baseLine of
             (l, c) \<Rightarrow>
               Some \<lparr>paramName = nm, defaultValue = defaultOf afterName,
                     paramLine = l, paramColumn = c\<rparr>))"

definition parseMixinParameters :: "string \<Rightarrow> string \<Rightarrow> nat \<Rightarrow> MixinParameter list option" where
  "parseMixinParameters content mixinName startLine =
     (let lines = splitLines content in
      case extractArgumentsString lines startLine of
        None \<Rightarrow> Some []
      | Some argsString \<Rightarrow>
          if trim argsString = [] then Some []
          else Some (List.map_filter (\<lambda>tok. parseParameter tok lines startLine)
                       (splitArguments argsString)))"

text \<open>\<open>findMixinDefinition\<close>: the first match, on a line that is no comment, with the name.\<close>

fun findMixinFrom :: "string \<Rightarrow> string \<Rightarrow> string \<Rightarrow> nat \<Rightarrow> string list \<Rightarrow> Definition option" where
  "findMixinFrom content mixinName fp lineNumber [] = None"
| "findMixinFrom content mixinName fp lineNumber (l # ls) =
     (if isCommentLine l then findMixinFrom content mixinName fp (Suc lineNumber) ls
      else (case find (\<lambda>(index, foundMixinName). foundMixinName = mixinName)
                      (matchAll MIXIN_PATTERN 0 l) of
              Some (index, foundMixinName) \<Rightarrow>
                Some \<lparr>name = mixinName, filePath = fp, line = lineNumber, column = index,
                      parameters = parseMixinParameters content mixinName lineNumber,
                      varValue = None\<rparr>
            | None \<Rightarrow> findMixinFrom content mixinName fp (Suc lineNumber) ls))"

definition findMixinDefinition :: "string \<Rightarrow> string \<Rightarrow> string \<Rightarrow> Definition option" where
  "findMixinDefinition content mixinName fp = findMixinFrom content mixinName fp 0 (splitLines content)"

text \<open>
  \<open>findVariableDefinition\<close> builds \<open>new RegExp(escapedVarName + "\\s*:", "g")\<close>. The names it
  is called with are made of the token characters \<open>[\w$-]\<close>, and \<open>$\<close> is escaped, so the
  pattern reads the name literally.
\<close>

definition varPattern :: "string \<Rightarrow> string \<Rightarrow> (unit \<times> nat) option" where
  "varPattern variableName s =
     (let r1 = drop (length variableName) s; w = takeWhile isSpace r1; r2 = dropWhile isSpace r1 in
      if startsWith s variableName \<and> startsWith r2 '':''
      then Some ((), length variableName + length w + 1) else None)"

fun findVariableFrom :: "string \<Rightarrow> string \<Rightarrow> nat \<Rightarrow> string list \<Rightarrow> Definition option" where
  "findVariableFrom variableName fp lineNumber [] = None"
| "findVariableFrom variableName fp lineNumber (l # ls) =
     (if isCommentLine l then findVariableFrom variableName fp (Suc lineNumber) ls
      else (case matchAll (varPattern variableName) 0 l of
              (index, u) # others \<Rightarrow>
                Some \<lparr>name = variableName, filePath = fp, line = lineNumber, column = index,
                      parameters = None, varValue = None\<rparr>
            | [] \<Rightarrow> findVariableFrom variableName fp (Suc lineNumber) ls))"

definition findVariableDefinition :: "string \<Rightarrow> string \<Rightarrow> string \<Rightarrow> Definition option" where
  "findVariableDefinition content variableName fp =
     findVariableFrom variableName fp 0 (splitLines content)"

definition mixinsOfLine :: "string \<Rightarrow> string \<Rightarrow> nat \<Rightarrow> string \<Rightarrow> Definition list" where
  "mixinsOfLine content fp lineNumber l =
     (if isCommentLine l then []
      else map (\<lambda>(index, mixinName).
                  \<lparr>name = mixinName, filePath = fp, line = lineNumber, column = index,
                   parameters = parseMixinParameters content mixinName lineNumber,
                   varValue = None\<rparr>)
               (matchAll MIXIN_PATTERN 0 l))"

fun allMixinsFrom :: "string \<Rightarrow> string \<Rightarrow> nat \<Rightarrow> string list \<Rightarrow> Definition list" where
  "allMixinsFrom content fp lineNumber [] = []"
| "allMixinsFrom content fp lineNumber (l # ls) =
     mixinsOfLine content fp lineNumber l @ allMixinsFrom content fp (Suc lineNumber) ls"

definition findAllMixinDefinitionsWithParams :: "string \<Rightarrow> string \<Rightarrow> Definition list" where
  "findAllMixinDefinitionsWithParams content fp = allMixinsFrom content fp 0 (splitLines content)"

text \<open>
  \<open>findAllVariableDefinitions\<close> also tracks block comments line by line. The name is the match
  without its \<open>\s*:\<close>; the value is the text after the colon up to the first \<open>;\<close>, trimmed.
\<close>

definition variablesOfLine :: "string \<Rightarrow> nat \<Rightarrow> string \<Rightarrow> Definition list" where
  "variablesOfLine fp lineNumber l =
     map (\<lambda>(index, fullMatch).
            let varName = takeWhile (\<lambda>c. \<not> isSpace c \<and> c \<noteq> CHR '':'') fullMatch;
                afterColon = drop (index + length fullMatch) l;
                v = (case indexOf afterColon '';'' of
                       Some semicolonIndex \<Rightarrow> trim (take semicolonIndex afterColon)
                     | None \<Rightarrow> trim afterColon)
            in \<lparr>name = varName, filePath = fp, line = lineNumber, column = index,
                 parameters = None, varValue = (if v = [] then None else Some v)\<rparr>)
         (matchAll VARIABLE_PATTERN 0 l)"

fun allVariablesFrom :: "string \<Rightarrow> nat \<Rightarrow> bool \<Rightarrow> string list \<Rightarrow> Definition list" where
  "allVariablesFrom fp lineNumber inBlockComment [] = []"
| "allVariablesFrom fp lineNumber inBlockComment (l # ls) =
     (let inBlock1 = (inBlockComment \<or> indexOf l ''/*'' \<noteq> None) in
      if indexOf l ''*/'' \<noteq> None then allVariablesFrom fp (Suc lineNumber) False ls
      else if inBlock1 then allVariablesFrom fp (Suc lineNumber) inBlock1 ls
      else if isCommentLine l then allVariablesFrom fp (Suc lineNumber) inBlock1 ls
      else variablesOfLine fp lineNumber l @ allVariablesFrom fp (Suc lineNumber) inBlock1 ls)"

definition findAllVariableDefinitions :: "string \<Rightarrow> string \<Rightarrow> Definition list" where
  "findAllVariableDefinitions content fp = allVariablesFrom fp 0 False (splitLines content)"

section \<open>UseResolver\<close>

record UseStatement =
  usePath :: string
  useNamespace :: string
  useLine :: nat

text \<open>The tail \<open>(?:\s+as\s+([\w-]+))?\<close> of \<open>USE_PATTERN\<close>.\<close>

definition asNamespaceClause :: "string \<Rightarrow> (string \<times> nat) option" where
  "asNamespaceClause s =
     (let w1 = takeWhile isSpace s; r1 = dropWhile isSpace s in
      if w1 = [] \<or> \<not> startsWith r1 ''as'' then None
      else let r2 = drop 2 r1; w2 = takeWhile isSpace r2; r3 = dropWhile isSpace r2;
               run = takeWhile isName r3 in
        if w2 = [] \<or> run = [] then None
        else Some (run, length w1 + 2 + length w2 + length run))"

definition USE_PATTERN :: "string \<Rightarrow> ((string \<times> string option) \<times> nat) option" where
  "USE_PATTERN s =
     (case quotedPathAfter ''@use'' s of
        None \<Rightarrow> None
      | Some (p, n) \<Rightarrow>
          (case asNamespaceClause (drop n s) of
             None \<Rightarrow> Some ((p, None), n)
           | Some (x, k) \<Rightarrow> Some ((p, Some x), n + k)))"

definition stripSuffix :: "string \<Rightarrow> string \<Rightarrow> string option" where
  "stripSuffix suffix s =
     (if length suffix \<le> length s \<and> drop (length s - length suffix) s = suffix
      then Some (take (length s - length suffix) s) else None)"

definition extractDefaultNamespace :: "string \<Rightarrow> string" where
  "extractDefaultNamespace p =
     (let lastPart = last (splitOn (CHR ''/'') p);
          withoutPrefix = (if startsWith lastPart ''sass:'' then drop 5 lastPart else lastPart);
          withoutExtension =
            (case stripSuffix ''.scss'' withoutPrefix of
               Some x \<Rightarrow> x
             | None \<Rightarrow> (case stripSuffix ''.sass'' withoutPrefix of
                          Some x \<Rightarrow> x
                        | None \<Rightarrow> withoutPrefix));
          withoutUnderscore =
            (if startsWith withoutExtension ''_'' then drop 1 withoutExtension else withoutExtension)
      in withoutUnderscore)"

definition usesOfLine :: "nat \<Rightarrow> string \<Rightarrow> UseStatement list" where
  "usesOfLine lineNumber l =
     (if isCommentLine l then []
      else map (\<lambda>(i, (p, x)).
                  \<lparr>usePath = p,
                   useNamespace = (case x of None \<Rightarrow> extractDefaultNamespace p | Some ns \<Rightarrow> ns),
                   useLine = lineNumber\<rparr>)
               (matchAll USE_PATTERN 0 l))"

fun usesFrom :: "nat \<Rightarrow> string list \<Rightarrow> UseStatement list" where
  "usesFrom lineNumber [] = []"
| "usesFrom lineNumber (l # ls) = usesOfLine lineNumber l @ usesFrom (Suc lineNumber) ls"

definition parseUseStatements :: "string \<Rightarrow> UseStatement list" where
  "parseUseStatements content = usesFrom 0 (splitLines content)"

definition findUseByNamespace :: "string \<Rightarrow> string \<Rightarrow> UseStatement option" where
  "findUseByNamespace content ns = find (\<lambda>stmt. useNamespace stmt = ns) (parseUseStatements content)"

section \<open>ForwardResolver\<close>

record ForwardedMember =
  originalName :: string
  forwardedPath :: string

text \<open>
  The head of the loop body of \<open>findForwardedMember\<close>: the name behind the prefix of the
  statement, or \<open>None\<close> where the source says \<open>continue\<close>. A prefix is tested for truthiness,
  so an empty one counts as none.
\<close>

definition stripForwardPrefix :: "ForwardStatement \<Rightarrow> string \<Rightarrow> string option" where
  "stripForwardPrefix statement memberName =
     (case fwdPrefix statement of
        None \<Rightarrow> Some memberName
      | Some pfx \<Rightarrow>
          if pfx = [] then Some memberName
          else let isVariable = startsWith memberName ''$'';
                   nameWithoutDollar = (if isVariable then drop 1 memberName else memberName) in
            if startsWith nameWithoutDollar pfx then
              (let baseName = drop (length pfx) nameWithoutDollar in
               Some (if isVariable then ''$'' @ baseName else baseName))
            else None)"

text \<open>
  \<open>visitedFiles\<close> is a set that every call extends by its own file on entry and restores in
  \<open>finally\<close>, on every way out. So the set a call sees is the set of the files of the calls
  around it, and the model passes it down as a parameter. The facade clears the set before
  its call: the outermost call sees the empty set.
\<close>

definition unvisited :: "env \<Rightarrow> string set \<Rightarrow> nat" where
  "unvisited e visitedFiles = card (set (map fst (nodes e)) - visitedFiles)"

lemma fileExists_nodes: "fileExists e p \<Longrightarrow> p \<in> set (map fst (nodes e))"
  by (auto simp: fileExists_def dest!: map_of_SomeD intro: rev_image_eqI)

lemma unvisited_insert: "unvisited e (insert p V) \<le> unvisited e V"
  unfolding unvisited_def by (rule card_mono) auto

lemma unvisited_less:
  assumes "fileExists e p" and "p \<notin> V"
  shows "unvisited e (insert p V) < unvisited e V"
  unfolding unvisited_def
proof (rule psubset_card_mono)
  show "finite (set (map fst (nodes e)) - V)" by simp
  have "p \<in> set (map fst (nodes e)) - V" using assms fileExists_nodes by blast
  then show "set (map fst (nodes e)) - insert p V \<subset> set (map fst (nodes e)) - V" by blast
qed

function findForwardedMember ::
    "env \<Rightarrow> string set \<Rightarrow> string \<Rightarrow> string \<Rightarrow> string \<Rightarrow> string \<Rightarrow> error + ForwardedMember option"
  and forwardLoop ::
    "env \<Rightarrow> string set \<Rightarrow> string \<Rightarrow> string \<Rightarrow> string \<Rightarrow> ForwardStatement list
      \<Rightarrow> error + ForwardedMember option"
where
  "findForwardedMember e visitedFiles content memberName currentFilePath workspaceRoot =
     (if currentFilePath \<in> visitedFiles then Inr None
      else forwardLoop e (insert currentFilePath visitedFiles) memberName currentFilePath
             workspaceRoot (parseForwardStatements content))"
| "forwardLoop e visitedFiles memberName currentFilePath workspaceRoot [] = Inr None"
| "forwardLoop e visitedFiles memberName currentFilePath workspaceRoot (statement # statements) =
     (case stripForwardPrefix statement memberName of
        None \<Rightarrow> forwardLoop e visitedFiles memberName currentFilePath workspaceRoot statements
      | Some orig \<Rightarrow>
          (case resolveModule e (fwdPath statement) currentFilePath workspaceRoot of
             None \<Rightarrow> forwardLoop e visitedFiles memberName currentFilePath workspaceRoot statements
           | Some resolvedPath \<Rightarrow>
               (case readFile e resolvedPath of
                  Inl err \<Rightarrow> Inl err
                | Inr forwardedContent \<Rightarrow>
                    (case findForwardedMember e visitedFiles forwardedContent orig resolvedPath
                            workspaceRoot of
                       Inl err \<Rightarrow> Inl err
                     | Inr (Some nestedResult) \<Rightarrow> Inr (Some nestedResult)
                     | Inr None \<Rightarrow>
                         Inr (Some \<lparr>originalName = orig, forwardedPath = resolvedPath\<rparr>)))))"
  by pat_completeness auto
termination
proof (relation "measures
    [\<lambda>x. case x of
            Inl (e, V, content, memberName, cur, root) \<Rightarrow>
              (if cur \<in> V then 0 else Suc (unvisited e (insert cur V)))
          | Inr (e, V, memberName, cur, root, statements) \<Rightarrow> Suc (unvisited e V),
     \<lambda>x. case x of Inl a \<Rightarrow> 1 | Inr b \<Rightarrow> 0,
     \<lambda>x. case x of
            Inl a \<Rightarrow> 0
          | Inr (e, V, memberName, cur, root, statements) \<Rightarrow> length statements]", goal_cases)
  case 1
  then show ?case by simp
next
  case 2
  then show ?case by simp
next
  case 3
  then show ?case by simp
next
  case 4
  then show ?case by simp
next
  case (5 e V memberName cur root statement statements orig resolvedPath forwardedContent)
  have ex: "fileExists e resolvedPath" using 5(2) by (rule resolveModule_exists)
  show ?case
  proof (cases "resolvedPath \<in> V")
    case True
    then show ?thesis by simp
  next
    case False
    then show ?thesis using unvisited_less [OF ex False] by simp
  qed
qed

declare findForwardedMember.simps [simp del]

datatype MemberType = MixinType | VariableType

definition isPrivate :: "Definition \<Rightarrow> bool" where
  "isPrivate m =
     (let isVariable = startsWith (name m) ''$'';
          nameWithoutDollar = (if isVariable then drop 1 (name m) else name m)
      in startsWith nameWithoutDollar ''_'')"

definition withPrefix :: "string option \<Rightarrow> Definition \<Rightarrow> Definition" where
  "withPrefix pfxOpt m =
     (case pfxOpt of
        None \<Rightarrow> m
      | Some pfx \<Rightarrow>
          if pfx = [] then m
          else let isVariable = startsWith (name m) ''$'';
                   nameWithoutDollar = (if isVariable then drop 1 (name m) else name m) in
            if isVariable then m\<lparr>name := ''$'' @ pfx @ nameWithoutDollar\<rparr>
            else m\<lparr>name := pfx @ name m\<rparr>)"

definition directMembers :: "MemberType \<Rightarrow> string \<Rightarrow> string \<Rightarrow> Definition list" where
  "directMembers ty forwardedContent resolvedPath =
     (case ty of
        MixinType \<Rightarrow> findAllMixinDefinitionsWithParams forwardedContent resolvedPath
      | VariableType \<Rightarrow> findAllVariableDefinitions forwardedContent resolvedPath)"

function findAllForwardedMembers ::
    "env \<Rightarrow> string \<Rightarrow> string \<Rightarrow> string \<Rightarrow> MemberType \<Rightarrow> string set \<Rightarrow> error + Definition list"
  and allForwardsLoop ::
    "env \<Rightarrow> string \<Rightarrow> string \<Rightarrow> MemberType \<Rightarrow> string set \<Rightarrow> ForwardStatement list
      \<Rightarrow> error + Definition list"
where
  "findAllForwardedMembers e content currentFilePath workspaceRoot ty visitedFiles =
     (if currentFilePath \<in> visitedFiles then Inr []
      else allForwardsLoop e currentFilePath workspaceRoot ty (insert currentFilePath visitedFiles)
             (parseForwardStatements content))"
| "allForwardsLoop e currentFilePath workspaceRoot ty visitedFiles [] = Inr []"
| "allForwardsLoop e currentFilePath workspaceRoot ty visitedFiles (statement # statements) =
     (case resolveModule e (fwdPath statement) currentFilePath workspaceRoot of
        None \<Rightarrow> allForwardsLoop e currentFilePath workspaceRoot ty visitedFiles statements
      | Some resolvedPath \<Rightarrow>
          (case readFile e resolvedPath of
             Inl err \<Rightarrow> Inl err
           | Inr forwardedContent \<Rightarrow>
               (case findAllForwardedMembers e forwardedContent resolvedPath workspaceRoot ty
                       visitedFiles of
                  Inl err \<Rightarrow> Inl err
                | Inr nestedMembers \<Rightarrow>
                    (case allForwardsLoop e currentFilePath workspaceRoot ty visitedFiles statements of
                       Inl err \<Rightarrow> Inl err
                     | Inr later \<Rightarrow>
                         Inr (map (withPrefix (fwdPrefix statement))
                                (filter (\<lambda>m. \<not> isPrivate m)
                                   (directMembers ty forwardedContent resolvedPath))
                              @ map (withPrefix (fwdPrefix statement)) nestedMembers
                              @ later)))))"
  by pat_completeness auto
termination
proof (relation "measures
    [\<lambda>x. case x of
            Inl (e, content, cur, root, ty, V) \<Rightarrow>
              (if cur \<in> V then 0 else Suc (unvisited e (insert cur V)))
          | Inr (e, cur, root, ty, V, statements) \<Rightarrow> Suc (unvisited e V),
     \<lambda>x. case x of Inl a \<Rightarrow> 1 | Inr b \<Rightarrow> 0,
     \<lambda>x. case x of
            Inl a \<Rightarrow> 0
          | Inr (e, cur, root, ty, V, statements) \<Rightarrow> length statements]", goal_cases)
  case 1
  then show ?case by simp
next
  case 2
  then show ?case by simp
next
  case 3
  then show ?case by simp
next
  case (4 e cur root ty V statement statements resolvedPath forwardedContent)
  have ex: "fileExists e resolvedPath" using 4(1) by (rule resolveModule_exists)
  show ?case
  proof (cases "resolvedPath \<in> V")
    case True
    then show ?thesis by simp
  next
    case False
    then show ?thesis using unvisited_less [OF ex False] by simp
  qed
next
  case 5
  then show ?case by simp
qed

declare findAllForwardedMembers.simps [simp del]

section \<open>SassDefinitionProvider\<close>

text \<open>
  What the provider reads of the editor: the path and the lines of the document, the
  workspace folder \<open>getWorkspaceFolder\<close> finds for it, and the cursor. \<open>lineAt\<close> throws on a
  line the document does not have.
\<close>

record TextDocument =
  fsPath :: string
  docLines :: "string list"
  workspaceFolder :: "string option"

record Position =
  posLine :: nat
  character :: nat

datatype CursorTarget = NamespaceTarget | MemberTarget

record ResolutionContext =
  token :: string
  namespace :: string
  member :: string
  currentFilePath :: string
  workspaceRoot :: string
  cursorTarget :: CursorTarget

record Location =
  uri :: string
  locLine :: nat
  locColumn :: nat

record IncludeContext =
  incNamespace :: string
  incMixinName :: string
  incArgumentName :: string

definition lineAt :: "TextDocument \<Rightarrow> nat \<Rightarrow> error + string" where
  "lineAt document n =
     (if n < length (docLines document) then Inr (docLines document ! n) else Inl (IllegalLine n))"

text \<open>
  \<open>/[...]/.test(line[i])\<close>: beyond the end of the line \<open>line[i]\<close> is \<open>undefined\<close>, which \<open>test\<close>
  reads as the string \<open>undefined\<close>; each class used below matches it.
\<close>

definition testAt :: "(char \<Rightarrow> bool) \<Rightarrow> string \<Rightarrow> nat \<Rightarrow> bool" where
  "testAt cls l i = (if i < length l then cls (l ! i) else True)"

text \<open>\<open>while (start > 0 && cls.test(line[start - 1])) start--\<close>\<close>

fun scanBack :: "(char \<Rightarrow> bool) \<Rightarrow> string \<Rightarrow> nat \<Rightarrow> nat" where
  "scanBack cls l 0 = 0"
| "scanBack cls l (Suc n) = (if testAt cls l n then scanBack cls l n else Suc n)"

text \<open>\<open>while (end < line.length && cls.test(line[end])) end++\<close>\<close>

definition scanForward :: "(char \<Rightarrow> bool) \<Rightarrow> string \<Rightarrow> nat \<Rightarrow> nat" where
  "scanForward cls l n = n + length (takeWhile cls (drop n l))"

text \<open>\<open>substring\<close> cuts both indices to the length of the string and swaps them if needed.\<close>

definition substring :: "string \<Rightarrow> nat \<Rightarrow> nat \<Rightarrow> string" where
  "substring s a b =
     (let a' = min a (length s); b' = min b (length s); lo = min a' b'; hi = max a' b'
      in take (hi - lo) (drop lo s))"

definition isDotToken :: "char \<Rightarrow> bool" where
  "isDotToken c = (isWord c \<or> c = CHR ''$'' \<or> c = CHR ''.'' \<or> c = CHR ''-'')"

definition extractContext :: "TextDocument \<Rightarrow> Position \<Rightarrow> error + ResolutionContext option" where
  "extractContext document position =
     (case lineAt document (posLine position) of
        Inl err \<Rightarrow> Inl err
      | Inr l \<Rightarrow>
          let cursorChar = character position in
          if (cursorChar \<ge> length l \<or> \<not> isDotToken (l ! cursorChar))
               \<and> \<not> (cursorChar > 0 \<and> testAt isToken l (cursorChar - 1))
          then Inr None
          else if \<not> (cursorChar < length l \<and> isToken (l ! cursorChar))
                    \<and> \<not> (cursorChar > 0 \<and> testAt isToken l (cursorChar - 1))
          then Inr None
          else
            let start0 = (if cursorChar < length l \<and> isToken (l ! cursorChar)
                          then cursorChar else cursorChar - 1);
                start1 = scanBack isToken l start0;
                start = (if start1 > 0 \<and> start1 - 1 < length l \<and> l ! (start1 - 1) = CHR ''.''
                         then scanBack isName l (start1 - 1) else start1);
                endIx = scanForward isToken l cursorChar;
                tok = substring l start endIx
            in (case indexOf tok ''.'' of
                  None \<Rightarrow> Inr None
                | Some dotIndex \<Rightarrow>
                    let ns = take dotIndex tok; mem = drop (dotIndex + 1) tok in
                    if ns = [] \<or> mem = [] then Inr None
                    else
                      let cursorInToken = cursorChar - start;
                          target = (if cursorInToken \<le> dotIndex then NamespaceTarget
                                    else MemberTarget)
                      in (case workspaceFolder document of
                            None \<Rightarrow> Inr None
                          | Some folder \<Rightarrow>
                              Inr (Some \<lparr>token = tok, namespace = ns, member = mem,
                                         currentFilePath = fsPath document,
                                         workspaceRoot = folder,
                                         cursorTarget = target\<rparr>))))"

text \<open>\<open>includePattern = /@include\s+([\w-]+)\.([\w-]+)\s*\(/g\<close>, anchored.\<close>

definition includePattern :: "string \<Rightarrow> ((string \<times> string) \<times> nat) option" where
  "includePattern s =
     (if \<not> startsWith s ''@include'' then None
      else let r1 = drop 8 s; w1 = takeWhile isSpace r1; r2 = dropWhile isSpace r1;
               ns = takeWhile isName r2; r3 = dropWhile isName r2;
               mx = takeWhile isName (drop 1 r3); r4 = dropWhile isName (drop 1 r3);
               w2 = takeWhile isSpace r4; r5 = dropWhile isSpace r4 in
        if w1 \<noteq> [] \<and> ns \<noteq> [] \<and> startsWith r3 ''.'' \<and> mx \<noteq> [] \<and> startsWith r5 ''(''
        then Some ((ns, mx), 8 + length w1 + length ns + 1 + length mx + length w2 + 1)
        else None)"

text \<open>\<open>findMatchingParen\<close>: the index of the \<open>)\<close> that brings the depth back to zero.\<close>

fun matchingParen :: "string \<Rightarrow> nat \<Rightarrow> int \<Rightarrow> nat option" where
  "matchingParen [] i depth = None"
| "matchingParen (c # cs) i depth =
     (let depth1 = (if c = CHR ''('' then depth + 1 else depth) in
      if c = CHR '')'' then
        (if depth1 - 1 = 0 then Some i else matchingParen cs (Suc i) (depth1 - 1))
      else matchingParen cs (Suc i) depth1)"

definition findMatchingParen :: "string \<Rightarrow> nat \<Rightarrow> nat option" where
  "findMatchingParen l startIndex = matchingParen (drop startIndex l) startIndex 0"

text \<open>\<open>paramPattern = /\$\s*([\w-]+)/g\<close> of \<open>extractArgumentNameAtCursor\<close>, anchored.\<close>

definition argumentPattern :: "string \<Rightarrow> ((string \<times> nat) \<times> nat) option" where
  "argumentPattern s =
     (case parameterHead s of None \<Rightarrow> None | Some ((nm, rest), n) \<Rightarrow> Some ((nm, n), n))"

definition extractArgumentNameAtCursor :: "string \<Rightarrow> nat \<Rightarrow> nat \<Rightarrow> nat \<Rightarrow> string option" where
  "extractArgumentNameAtCursor l cursorPos argsStart argsEnd =
     (let argsString = substring l (argsStart + 1) argsEnd;
          relativePos = cursorPos - argsStart - 1 in
      case find (\<lambda>(matchStart, nm, matchLength).
                   relativePos \<ge> matchStart \<and> relativePos \<le> matchStart + matchLength)
                (matchAll argumentPattern 0 argsString) of
        None \<Rightarrow> None
      | Some (matchStart, nm, matchLength) \<Rightarrow> Some nm)"

fun includeContextOf :: "string \<Rightarrow> nat \<Rightarrow> (nat \<times> string \<times> string) list \<Rightarrow> IncludeContext option" where
  "includeContextOf l cursorChar [] = None"
| "includeContextOf l cursorChar ((matchStart, ns, mx) # matches) =
     (case indexOf (drop matchStart l) ''('' of
        None \<Rightarrow> includeContextOf l cursorChar matches
      | Some k \<Rightarrow>
          let parenStart = matchStart + k in
          (case findMatchingParen l parenStart of
             None \<Rightarrow> includeContextOf l cursorChar matches
           | Some parenEnd \<Rightarrow>
               if cursorChar \<le> parenStart \<or> cursorChar \<ge> parenEnd
               then includeContextOf l cursorChar matches
               else (case extractArgumentNameAtCursor l cursorChar parenStart parenEnd of
                       None \<Rightarrow> includeContextOf l cursorChar matches
                     | Some argumentName \<Rightarrow>
                         Some \<lparr>incNamespace = ns, incMixinName = mx,
                               incArgumentName = argumentName\<rparr>)))"

definition extractIncludeCallContext :: "TextDocument \<Rightarrow> Position \<Rightarrow> error + IncludeContext option" where
  "extractIncludeCallContext document position =
     (case lineAt document (posLine position) of
        Inl err \<Rightarrow> Inl err
      | Inr l \<Rightarrow> Inr (includeContextOf l (character position) (matchAll includePattern 0 l)))"

text \<open>\<open>try { ... } catch (error) { logger.error(...); return undefined; }\<close>\<close>

definition catchAll :: "error + 'a option \<Rightarrow> error + 'a option" where
  "catchAll r = (case r of Inl err \<Rightarrow> Inr None | Inr v \<Rightarrow> Inr v)"

definition locationOf :: "Definition \<Rightarrow> Location" where
  "locationOf d = \<lparr>uri = filePath d, locLine = line d, locColumn = column d\<rparr>"

definition findTarget :: "string \<Rightarrow> string \<Rightarrow> ForwardedMember option \<Rightarrow> string \<times> string" where
  "findTarget moduleFilePath memberName forwardedResult =
     (case forwardedResult of
        Some r \<Rightarrow> (forwardedPath r, originalName r)
      | None \<Rightarrow> (moduleFilePath, memberName))"

definition resolveDefinitionBody :: "env \<Rightarrow> ResolutionContext \<Rightarrow> error + Location option" where
  "resolveDefinitionBody e context =
     (case readFile e (currentFilePath context) of
        Inl err \<Rightarrow> Inl err
      | Inr currentContent \<Rightarrow>
          (case findUseByNamespace currentContent (namespace context) of
             None \<Rightarrow> Inr None
           | Some useStatement \<Rightarrow>
               (case resolveModule e (usePath useStatement) (currentFilePath context)
                       (workspaceRoot context) of
                  None \<Rightarrow> Inr None
                | Some moduleFilePath \<Rightarrow>
                    if cursorTarget context = NamespaceTarget
                    then Inr (Some \<lparr>uri = moduleFilePath, locLine = 0, locColumn = 0\<rparr>)
                    else
                      (case readFile e moduleFilePath of
                         Inl err \<Rightarrow> Inl err
                       | Inr moduleContent \<Rightarrow>
                           let isVariable = startsWith (member context) ''$'' in
                           (case findForwardedMember e {} moduleContent (member context)
                                   moduleFilePath (workspaceRoot context) of
                              Inl err \<Rightarrow> Inl err
                            | Inr forwardedResult \<Rightarrow>
                                (case findTarget moduleFilePath (member context) forwardedResult of
                                   (targetFilePath, targetMemberName) \<Rightarrow>
                                     (case readFile e targetFilePath of
                                        Inl err \<Rightarrow> Inl err
                                      | Inr targetContent \<Rightarrow>
                                          (case (if isVariable
                                                 then findVariableDefinition targetContent
                                                        targetMemberName targetFilePath
                                                 else findMixinDefinition targetContent
                                                        targetMemberName targetFilePath) of
                                             None \<Rightarrow> Inr None
                                           | Some d \<Rightarrow> Inr (Some (locationOf d))))))))))"

definition resolveDefinition :: "env \<Rightarrow> ResolutionContext \<Rightarrow> error + Location option" where
  "resolveDefinition e context = catchAll (resolveDefinitionBody e context)"

text \<open>
  \<open>forwardedResult?.filePath || moduleFilePath\<close> and
  \<open>forwardedResult?.originalName || includeContext.mixinName\<close>: an empty string is falsy.
\<close>

definition orElse :: "string option \<Rightarrow> string \<Rightarrow> string" where
  "orElse v d = (case v of None \<Rightarrow> d | Some x \<Rightarrow> if x = [] then d else x)"

definition resolveArgumentDefinition ::
    "env \<Rightarrow> IncludeContext \<Rightarrow> TextDocument \<Rightarrow> error + Location option" where
  "resolveArgumentDefinition e includeContext document =
     (case workspaceFolder document of
        None \<Rightarrow> Inr None
      | Some root \<Rightarrow>
          (case readFile e (fsPath document) of
             Inl err \<Rightarrow> Inl err
           | Inr currentContent \<Rightarrow>
               (case findUseByNamespace currentContent (incNamespace includeContext) of
                  None \<Rightarrow> Inr None
                | Some useStatement \<Rightarrow>
                    (case resolveModule e (usePath useStatement) (fsPath document) root of
                       None \<Rightarrow> Inr None
                     | Some moduleFilePath \<Rightarrow>
                         (case readFile e moduleFilePath of
                            Inl err \<Rightarrow> Inl err
                          | Inr moduleContent \<Rightarrow>
                              (case findForwardedMember e {} moduleContent
                                      (incMixinName includeContext) moduleFilePath root of
                                 Inl err \<Rightarrow> Inl err
                               | Inr forwardedResult \<Rightarrow>
                                   let targetFilePath =
                                         orElse (map_option forwardedPath forwardedResult)
                                           moduleFilePath;
                                       targetMixinName =
                                         orElse (map_option originalName forwardedResult)
                                           (incMixinName includeContext)
                                   in (case readFile e targetFilePath of
                                         Inl err \<Rightarrow> Inl err
                                       | Inr targetContent \<Rightarrow>
                                           (case findMixinDefinition targetContent targetMixinName
                                                   targetFilePath of
                                              None \<Rightarrow> Inr None
                                            | Some mixinDef \<Rightarrow>
                                                (case parameters mixinDef of
                                                   None \<Rightarrow> Inr None
                                                 | Some ps \<Rightarrow>
                                                     if ps = [] then Inr None else
                                                     (case find (\<lambda>p. paramName p
                                                                    = incArgumentName includeContext) ps of
                                                        None \<Rightarrow> Inr None
                                                      | Some targetParam \<Rightarrow>
                                                          Inr (Some \<lparr>uri = targetFilePath,
                                                                     locLine = paramLine targetParam,
                                                                     locColumn = paramColumn targetParam\<rparr>)))))))))))"

definition provideDefinitionBody :: "env \<Rightarrow> TextDocument \<Rightarrow> Position \<Rightarrow> error + Location option" where
  "provideDefinitionBody e document position =
     (case extractIncludeCallContext document position of
        Inl err \<Rightarrow> Inl err
      | Inr (Some includeContext) \<Rightarrow> resolveArgumentDefinition e includeContext document
      | Inr None \<Rightarrow>
          (case extractContext document position of
             Inl err \<Rightarrow> Inl err
           | Inr None \<Rightarrow> Inr None
           | Inr (Some context) \<Rightarrow> resolveDefinition e context))"

definition provideDefinition :: "env \<Rightarrow> TextDocument \<Rightarrow> Position \<Rightarrow> error + Location option" where
  "provideDefinition e document position = catchAll (provideDefinitionBody e document position)"

section \<open>Module resolution in a package directory\<close>

text \<open>The candidate loop returns the first candidate, in the order of the list, that exists.\<close>

lemma firstExisting_first:
  "firstExisting e cs = Some c \<longleftrightarrow>
     (\<exists>i < length cs. cs ! i = c \<and> fileExists e c \<and> (\<forall>j < i. \<not> fileExists e (cs ! j)))"
proof (induction cs)
  case Nil
  then show ?case by simp
next
  case (Cons a cs)
  show ?case
  proof (cases "fileExists e a")
    case True
    have "(\<exists>i < length (a # cs). (a # cs) ! i = c \<and> fileExists e c \<and> (\<forall>j < i. \<not> fileExists e ((a # cs) ! j))) \<longleftrightarrow> a = c"
    proof
      assume "\<exists>i < length (a # cs). (a # cs) ! i = c \<and> fileExists e c \<and> (\<forall>j < i. \<not> fileExists e ((a # cs) ! j))"
      then obtain i where i: "i < length (a # cs)" "(a # cs) ! i = c" "\<forall>j < i. \<not> fileExists e ((a # cs) ! j)" by blast
      show "a = c"
      proof (cases i)
        case 0
        then show ?thesis using i(2) by simp
      next
        case (Suc k)
        then have "\<not> fileExists e ((a # cs) ! 0)" using i(3) by blast
        then show ?thesis using True by simp
      qed
    next
      assume "a = c"
      then have "0 < length (a # cs) \<and> (a # cs) ! 0 = c \<and> fileExists e c \<and> (\<forall>j < 0. \<not> fileExists e ((a # cs) ! j))"
        using True by simp
      then show "\<exists>i < length (a # cs). (a # cs) ! i = c \<and> fileExists e c \<and> (\<forall>j < i. \<not> fileExists e ((a # cs) ! j))"
        by blast
    qed
    then show ?thesis using True by simp
  next
    case False
    have "(\<exists>i < length (a # cs). (a # cs) ! i = c \<and> fileExists e c \<and> (\<forall>j < i. \<not> fileExists e ((a # cs) ! j)))
          \<longleftrightarrow> (\<exists>i < length cs. cs ! i = c \<and> fileExists e c \<and> (\<forall>j < i. \<not> fileExists e (cs ! j)))"
      (is "?L \<longleftrightarrow> ?R")
    proof
      assume ?L
      then obtain i where i: "i < length (a # cs)" "(a # cs) ! i = c" "fileExists e c" "\<forall>j < i. \<not> fileExists e ((a # cs) ! j)" by blast
      have "i \<noteq> 0" using i(2,3) False by (cases i) auto
      then obtain k where k: "i = Suc k" by (cases i) auto
      have "k < length cs" "cs ! k = c" using i(1,2) k by auto
      moreover have "\<forall>j < k. \<not> fileExists e (cs ! j)"
      proof (intro allI impI)
        fix j assume "j < k"
        then have "Suc j < i" using k by simp
        then have "\<not> fileExists e ((a # cs) ! Suc j)" using i(4) by blast
        then show "\<not> fileExists e (cs ! j)" by simp
      qed
      ultimately show ?R using i(3) by blast
    next
      assume ?R
      then obtain k where k: "k < length cs" "cs ! k = c" "fileExists e c" "\<forall>j < k. \<not> fileExists e (cs ! j)" by blast
      have "\<forall>j < Suc k. \<not> fileExists e ((a # cs) ! j)"
      proof (intro allI impI)
        fix j assume "j < Suc k"
        then show "\<not> fileExists e ((a # cs) ! j)" using False k(4) by (cases j) auto
      qed
      moreover have "Suc k < length (a # cs)" "(a # cs) ! Suc k = c" using k by auto
      ultimately show ?L using k(3) by blast
    qed
    then show ?thesis using False Cons.IH by simp
  qed
qed

text \<open>
  A package directory with both a flat file \<open>pkg.scss\<close> beside it and an \<open>index.scss\<close> inside
  it, and no manifest.
\<close>

definition packageEnv :: env where
  "packageEnv =
     \<lparr>nodes = [(''/w/node_modules'', Directory),
               (''/w/node_modules/pkg'', Directory),
               (''/w/node_modules/pkg.scss'', File ''$flat: 1;''),
               (''/w/node_modules/pkg/index.scss'', File ''$index: 1;'')],
      cwd = ''/w'',
      jsonParse = (\<lambda>content. None)\<rparr>"

text \<open>
  C8, as amended. When the manifest of the package gives no entry that exists
  (\<open>manifestEntry\<close> is \<open>None\<close>: no readable \<open>package.json\<close>, no non-empty \<open>sass\<close> or \<open>style\<close>
  field, or the entry file is missing), \<open>resolveInNodeModules\<close> returns the first existing
  candidate of its own list: \<open>index.scss\<close>, \<open>_index.scss\<close>, \<open>index.sass\<close>, \<open>_index.sass\<close> inside the
  package directory, then the flat \<open>.scss\<close> and \<open>.sass\<close> files, then the two siblings with an
  underscore. The index files come before the flat files, and \<open>index\<close> before \<open>_index\<close>: this
  is not the order of relative resolution.
\<close>

theorem package_fallback_order:
  assumes "manifestEntry e (pathJoin [nodeModulesPath, modulePath]) = None"
  shows "resolveInNodeModules e modulePath nodeModulesPath = Some c \<longleftrightarrow>
     (let packagePath = pathJoin [nodeModulesPath, modulePath];
          candidates =
            [pathJoin [packagePath, ''index.scss''],
             pathJoin [packagePath, ''_index.scss''],
             pathJoin [packagePath, ''index.sass''],
             pathJoin [packagePath, ''_index.sass''],
             packagePath @ ''.scss'',
             packagePath @ ''.sass'',
             pathJoin [dirname packagePath, ''_'' @ basename packagePath @ ''.scss''],
             pathJoin [dirname packagePath, ''_'' @ basename packagePath @ ''.sass'']]
      in \<exists>i < 8. candidates ! i = c \<and> fileExists e c
                 \<and> (\<forall>j < i. \<not> fileExists e (candidates ! j)))"
proof -
  define packagePath where "packagePath = pathJoin [nodeModulesPath, modulePath]"
  define candidates where "candidates =
            [pathJoin [packagePath, ''index.scss''],
             pathJoin [packagePath, ''_index.scss''],
             pathJoin [packagePath, ''index.sass''],
             pathJoin [packagePath, ''_index.sass''],
             packagePath @ ''.scss'',
             packagePath @ ''.sass'',
             pathJoin [dirname packagePath, ''_'' @ basename packagePath @ ''.scss''],
             pathJoin [dirname packagePath, ''_'' @ basename packagePath @ ''.sass'']]"
  have r: "resolveInNodeModules e modulePath nodeModulesPath = firstExisting e candidates"
    using assms
    by (simp add: resolveInNodeModules_def Let_def packageCandidates_def packagePath_def
          candidates_def)
  have len: "length candidates = 8" by (simp add: candidates_def)
  have "firstExisting e candidates = Some c \<longleftrightarrow>
     (\<exists>i < 8. candidates ! i = c \<and> fileExists e c \<and> (\<forall>j < i. \<not> fileExists e (candidates ! j)))"
    by (simp only: firstExisting_first len)
  then show ?thesis
    unfolding Let_def r packagePath_def [symmetric] candidates_def [symmetric] .
qed

text \<open>The theorem at the package above: \<open>index.scss\<close> is the first candidate and it exists.\<close>

theorem package_fallback_order_witness:
  "manifestEntry packageEnv (pathJoin [''/w/node_modules'', ''pkg'']) = None
   \<and> resolveInNodeModules packageEnv ''pkg'' ''/w/node_modules'' = Some ''/w/node_modules/pkg/index.scss''
   \<and> fileExists packageEnv ''/w/node_modules/pkg/index.scss''"
proof -
  have h: "manifestEntry packageEnv (pathJoin [''/w/node_modules'', ''pkg'']) = None"
    unfolding packageEnv_def by code_simp
  have r: "resolveInNodeModules packageEnv ''pkg'' ''/w/node_modules'' = Some ''/w/node_modules/pkg/index.scss''"
    unfolding packageEnv_def by code_simp
  from package_fallback_order [OF h, of "''/w/node_modules/pkg/index.scss''"] r
  have "let packagePath = pathJoin [''/w/node_modules'', ''pkg''];
          candidates =
            [pathJoin [packagePath, ''index.scss''],
             pathJoin [packagePath, ''_index.scss''],
             pathJoin [packagePath, ''index.sass''],
             pathJoin [packagePath, ''_index.sass''],
             packagePath @ ''.scss'',
             packagePath @ ''.sass'',
             pathJoin [dirname packagePath, ''_'' @ basename packagePath @ ''.scss''],
             pathJoin [dirname packagePath, ''_'' @ basename packagePath @ ''.sass'']]
      in \<exists>i < 8. candidates ! i = ''/w/node_modules/pkg/index.scss'' \<and> fileExists packageEnv ''/w/node_modules/pkg/index.scss''
                 \<and> (\<forall>j < i. \<not> fileExists packageEnv (candidates ! j))"
    by simp
  then have "fileExists packageEnv ''/w/node_modules/pkg/index.scss''"
    unfolding Let_def by blast
  with h r show ?thesis by simp
qed


text \<open>
  C8 as stated fails: with the order of relative resolution the flat file \<open>pkg.scss\<close> would
  win over \<open>pkg/index.scss\<close>; the resolver returns \<open>pkg/index.scss\<close>.
\<close>

theorem package_fallback_order_counterexample:
  "resolveInNodeModules packageEnv ''pkg'' ''/w/node_modules'' = Some ''/w/node_modules/pkg/index.scss''
   \<and> firstExisting packageEnv (relativeCandidates (pathJoin [''/w/node_modules'', ''pkg'']))
       = Some ''/w/node_modules/pkg.scss''"
  unfolding packageEnv_def by code_simp

section \<open>The search for one forwarded member\<close>

lemma forwardLoop_skip:
  assumes "\<forall>s \<in> set skipped. stripForwardPrefix s memberName = None
                          \<or> resolveModule e (fwdPath s) cur root = None"
  shows "forwardLoop e V memberName cur root (skipped @ rest) = forwardLoop e V memberName cur root rest"
  using assms
proof (induction skipped)
  case Nil
  then show ?case by simp
next
  case (Cons s skipped)
  then have "stripForwardPrefix s memberName = None \<or> resolveModule e (fwdPath s) cur root = None"
    by simp
  then have "forwardLoop e V memberName cur root (s # skipped @ rest)
             = forwardLoop e V memberName cur root (skipped @ rest)"
    by (auto simp: forwardLoop.simps split: option.splits)
  then show ?case using Cons by simp
qed

lemma forwardLoop_hit:
  assumes "stripForwardPrefix st memberName = Some orig"
    and "resolveModule e (fwdPath st) cur root = Some rp"
  shows "forwardLoop e V memberName cur root (st # later) =
     (case readFile e rp of
        Inl err \<Rightarrow> Inl err
      | Inr fc \<Rightarrow>
          (case findForwardedMember e V fc orig rp root of
             Inl err \<Rightarrow> Inl err
           | Inr (Some nested) \<Rightarrow> Inr (Some nested)
           | Inr None \<Rightarrow> Inr (Some \<lparr>originalName = orig, forwardedPath = rp\<rparr>)))"
  using assms by (simp add: forwardLoop.simps)

text \<open>
  The loop as one expression: of the statements, in their order, those whose prefix matches
  and whose module resolves; the loop ends at the first of them.
\<close>

lemma forwardLoop_first:
  "forwardLoop e V memberName cur root statements =
     (case List.map_filter
             (\<lambda>st. case stripForwardPrefix st memberName of
                      None \<Rightarrow> None
                    | Some orig \<Rightarrow> map_option (Pair orig) (resolveModule e (fwdPath st) cur root))
             statements of
        [] \<Rightarrow> Inr None
      | (orig, rp) # others \<Rightarrow>
          (case readFile e rp of
             Inl err \<Rightarrow> Inl err
           | Inr fc \<Rightarrow>
               (case findForwardedMember e V fc orig rp root of
                  Inl err \<Rightarrow> Inl err
                | Inr (Some nested) \<Rightarrow> Inr (Some nested)
                | Inr None \<Rightarrow> Inr (Some \<lparr>originalName = orig, forwardedPath = rp\<rparr>))))"
proof (induction statements)
  case Nil
  then show ?case by (simp add: map_filter_simps)
next
  case (Cons st statements)
  show ?case
  proof (cases "stripForwardPrefix st memberName")
    case None
    then show ?thesis using Cons by (simp add: map_filter_simps)
  next
    case (Some orig)
    show ?thesis
    proof (cases "resolveModule e (fwdPath st) cur root")
      case None
      then show ?thesis using Cons Some by (simp add: map_filter_simps)
    next
      case (Some rp)
      then show ?thesis using \<open>stripForwardPrefix st memberName = Some orig\<close>
        by (simp add: map_filter_simps)
    qed
  qed
qed

text \<open>The statements are listed in the order of their lines.\<close>

lemma forwardsOfLine_line: "s \<in> set (forwardsOfLine n l) \<Longrightarrow> fwdLine s = n"
  by (auto simp: forwardsOfLine_def split: if_splits)

lemma forwardsFrom_line: "s \<in> set (forwardsFrom n ls) \<Longrightarrow> n \<le> fwdLine s"
proof (induction ls arbitrary: n)
  case Nil
  then show ?case by simp
next
  case (Cons l ls)
  from Cons.prems have "s \<in> set (forwardsOfLine n l) \<or> s \<in> set (forwardsFrom (Suc n) ls)"
    by simp
  then show ?case
  proof
    assume "s \<in> set (forwardsOfLine n l)"
    then show ?thesis using forwardsOfLine_line by fastforce
  next
    assume "s \<in> set (forwardsFrom (Suc n) ls)"
    then have "Suc n \<le> fwdLine s" by (rule Cons.IH)
    then show ?thesis by simp
  qed
qed

lemma sorted_map_const: "(\<And>x. x \<in> set xs \<Longrightarrow> f x = (n::nat)) \<Longrightarrow> sorted (map f xs)"
  by (induction xs) auto

lemma forwardsFrom_sorted: "sorted (map fwdLine (forwardsFrom n ls))"
proof (induction ls arbitrary: n)
  case Nil
  then show ?case by simp
next
  case (Cons l ls)
  have a: "sorted (map fwdLine (forwardsOfLine n l))"
    by (rule sorted_map_const) (rule forwardsOfLine_line)
  have b: "sorted (map fwdLine (forwardsFrom (Suc n) ls))" by (rule Cons.IH)
  have c: "\<forall>x \<in> set (forwardsOfLine n l). \<forall>y \<in> set (forwardsFrom (Suc n) ls). fwdLine x \<le> fwdLine y"
  proof (intro ballI)
    fix x y assume "x \<in> set (forwardsOfLine n l)" "y \<in> set (forwardsFrom (Suc n) ls)"
    then have "fwdLine x = n" "Suc n \<le> fwdLine y"
      using forwardsOfLine_line forwardsFrom_line by blast+
    then show "fwdLine x \<le> fwdLine y" by simp
  qed
  show ?case using a b c by (simp add: sorted_append)
qed

text \<open>
  C1. \<open>findForwardedMember\<close> goes through the \<open>@forward\<close> statements of the file in source
  order (the order of their lines). A file that is being visited gives nothing. The prefix
  of a statement matches when the member name, without its \<open>$\<close>, begins with it; the name
  behind the prefix is the member name without it, and the member name itself when the
  statement has no prefix. Statements whose prefix does not match, or whose module does not
  resolve, are passed over; when every statement is passed over the result is nothing. At the first statement
  whose prefix matches (or that has none) and whose module resolves, the search goes into
  the resolved file: when that file cannot be read the call throws; a result found there is
  returned; and when nothing is found there the hop itself is returned, with the name behind
  the prefix and the resolved path. The statements after it have no part in the result.
\<close>

theorem first_matching_forward_commits:
  "findForwardedMember e V content memberName cur root =
     (if cur \<in> V then Inr None
      else case List.map_filter
                  (\<lambda>st. case stripForwardPrefix st memberName of
                           None \<Rightarrow> None
                         | Some orig \<Rightarrow> map_option (Pair orig) (resolveModule e (fwdPath st) cur root))
                  (parseForwardStatements content) of
             [] \<Rightarrow> Inr None
           | (orig, rp) # others \<Rightarrow>
               (case readFile e rp of
                  Inl err \<Rightarrow> Inl err
                | Inr fc \<Rightarrow>
                    (case findForwardedMember e (insert cur V) fc orig rp root of
                       Inl err \<Rightarrow> Inl err
                     | Inr (Some nested) \<Rightarrow> Inr (Some nested)
                     | Inr None \<Rightarrow> Inr (Some \<lparr>originalName = orig, forwardedPath = rp\<rparr>))))
   \<and> sorted (map fwdLine (parseForwardStatements content))
   \<and> stripForwardPrefix st memberName =
       (case fwdPrefix st of
          None \<Rightarrow> Some memberName
        | Some p \<Rightarrow>
            if p = [] then Some memberName
            else if startsWith memberName ''$''
            then (if startsWith (drop 1 memberName) p
                  then Some (''$'' @ drop (length p) (drop 1 memberName)) else None)
            else (if startsWith memberName p
                  then Some (drop (length p) memberName) else None))
   \<and> (cur \<notin> V \<longrightarrow>
        (\<forall>s \<in> set (parseForwardStatements content).
            stripForwardPrefix s memberName = None \<or> resolveModule e (fwdPath s) cur root = None) \<longrightarrow>
        findForwardedMember e V content memberName cur root = Inr None)
   \<and> (cur \<notin> V \<longrightarrow>
        parseForwardStatements content = skipped @ st # later \<longrightarrow>
        (\<forall>s \<in> set skipped.
            stripForwardPrefix s memberName = None \<or> resolveModule e (fwdPath s) cur root = None) \<longrightarrow>
        stripForwardPrefix st memberName = Some orig' \<longrightarrow>
        resolveModule e (fwdPath st) cur root = Some rp' \<longrightarrow>
        findForwardedMember e V content memberName cur root =
          (case readFile e rp' of
             Inl err \<Rightarrow> Inl err
           | Inr fc \<Rightarrow>
               (case findForwardedMember e (insert cur V) fc orig' rp' root of
                  Inl err \<Rightarrow> Inl err
                | Inr (Some nested) \<Rightarrow> Inr (Some nested)
                | Inr None \<Rightarrow> Inr (Some \<lparr>originalName = orig', forwardedPath = rp'\<rparr>))))"
proof (intro conjI impI)
  show "findForwardedMember e V content memberName cur root =
     (if cur \<in> V then Inr None
      else case List.map_filter
                  (\<lambda>st. case stripForwardPrefix st memberName of
                           None \<Rightarrow> None
                         | Some orig \<Rightarrow> map_option (Pair orig) (resolveModule e (fwdPath st) cur root))
                  (parseForwardStatements content) of
             [] \<Rightarrow> Inr None
           | (orig, rp) # others \<Rightarrow>
               (case readFile e rp of
                  Inl err \<Rightarrow> Inl err
                | Inr fc \<Rightarrow>
                    (case findForwardedMember e (insert cur V) fc orig rp root of
                       Inl err \<Rightarrow> Inl err
                     | Inr (Some nested) \<Rightarrow> Inr (Some nested)
                     | Inr None \<Rightarrow> Inr (Some \<lparr>originalName = orig, forwardedPath = rp\<rparr>))))"
    by (simp add: findForwardedMember.simps forwardLoop_first [symmetric])
next
  show "sorted (map fwdLine (parseForwardStatements content))"
    unfolding parseForwardStatements_def by (rule forwardsFrom_sorted)
next
  show "stripForwardPrefix st memberName =
       (case fwdPrefix st of
          None \<Rightarrow> Some memberName
        | Some p \<Rightarrow>
            if p = [] then Some memberName
            else if startsWith memberName ''$''
            then (if startsWith (drop 1 memberName) p
                  then Some (''$'' @ drop (length p) (drop 1 memberName)) else None)
            else (if startsWith memberName p
                  then Some (drop (length p) memberName) else None))"
    by (simp add: stripForwardPrefix_def Let_def split: option.splits)
next
  assume v: "cur \<notin> V"
    and none: "\<forall>s \<in> set (parseForwardStatements content).
            stripForwardPrefix s memberName = None \<or> resolveModule e (fwdPath s) cur root = None"
  have "forwardLoop e (insert cur V) memberName cur root (parseForwardStatements content @ [])
        = forwardLoop e (insert cur V) memberName cur root []"
    using none by (rule forwardLoop_skip)
  then show "findForwardedMember e V content memberName cur root = Inr None"
    using v by (simp add: findForwardedMember.simps)
next
  assume v: "cur \<notin> V"
    and parse: "parseForwardStatements content = skipped @ st # later"
    and skip: "\<forall>s \<in> set skipped.
            stripForwardPrefix s memberName = None \<or> resolveModule e (fwdPath s) cur root = None"
    and strip: "stripForwardPrefix st memberName = Some orig'"
    and res: "resolveModule e (fwdPath st) cur root = Some rp'"
  have "findForwardedMember e V content memberName cur root
        = forwardLoop e (insert cur V) memberName cur root (skipped @ st # later)"
    using v parse by (simp add: findForwardedMember.simps)
  also have "\<dots> = forwardLoop e (insert cur V) memberName cur root (st # later)"
    using skip by (rule forwardLoop_skip)
  also have "\<dots> = (case readFile e rp' of
             Inl err \<Rightarrow> Inl err
           | Inr fc \<Rightarrow>
               (case findForwardedMember e (insert cur V) fc orig' rp' root of
                  Inl err \<Rightarrow> Inl err
                | Inr (Some nested) \<Rightarrow> Inr (Some nested)
                | Inr None \<Rightarrow> Inr (Some \<lparr>originalName = orig', forwardedPath = rp'\<rparr>)))"
    using strip res by (rule forwardLoop_hit)
  finally show "findForwardedMember e V content memberName cur root =
          (case readFile e rp' of
             Inl err \<Rightarrow> Inl err
           | Inr fc \<Rightarrow>
               (case findForwardedMember e (insert cur V) fc orig' rp' root of
                  Inl err \<Rightarrow> Inl err
                | Inr (Some nested) \<Rightarrow> Inr (Some nested)
                | Inr None \<Rightarrow> Inr (Some \<lparr>originalName = orig', forwardedPath = rp'\<rparr>)))" .
qed

text \<open>
  \<open>a.scss\<close> forwards four modules: the first with another prefix, the second missing, the
  third and the fourth with the prefix \<open>p-\<close>. The third, \<open>b.scss\<close>, forwards \<open>deep.scss\<close> with
  the prefix \<open>in-\<close> and defines neither \<open>reset\<close> nor \<open>in-reset\<close>; the fourth, \<open>c.scss\<close>, defines
  both. \<open>t.scss\<close> forwards a directory, which exists and cannot be read.
\<close>

definition commitContent :: string where
  "commitContent = ''@forward \"./x\" as q-*;'' @ [CHR 0x0A]
                   @ ''@forward \"./missing\";'' @ [CHR 0x0A]
                   @ ''@forward \"./b\" as p-*;'' @ [CHR 0x0A]
                   @ ''@forward \"./c\" as p-*;''"

definition commitInner :: string where
  "commitInner = ''@forward \"./deep\" as in-*;'' @ [CHR 0x0A] @ ''$other: 1;''"

definition commitEnv :: env where
  "commitEnv =
     \<lparr>nodes = [(''/w/a.scss'', File commitContent),
               (''/w/x.scss'', File []),
               (''/w/b.scss'', File commitInner),
               (''/w/deep.scss'', File ''@mixin reset { }''),
               (''/w/c.scss'', File (''@mixin reset { }'' @ [CHR 0x0A] @ ''@mixin in-reset { }'')),
               (''/w/dir.scss'', Directory),
               (''/w/t.scss'', File ''@forward \"./dir\";'')],
      cwd = ''/w'',
      jsonParse = (\<lambda>content. None)\<rparr>"

theorem first_matching_forward_commits_witness:
  "findForwardedMember commitEnv {} commitContent ''p-reset'' ''/w/a.scss'' ''/w''
     = Inr (Some \<lparr>originalName = ''reset'', forwardedPath = ''/w/b.scss''\<rparr>)
   \<and> findForwardedMember commitEnv {} commitContent ''p-in-reset'' ''/w/a.scss'' ''/w''
     = Inr (Some \<lparr>originalName = ''reset'', forwardedPath = ''/w/deep.scss''\<rparr>)
   \<and> findForwardedMember commitEnv {} commitContent ''zzz'' ''/w/a.scss'' ''/w'' = Inr None
   \<and> findForwardedMember commitEnv {} ''@forward \"./dir\";'' ''reset'' ''/w/t.scss'' ''/w''
     = Inl (ReadError ''/w/dir.scss'')
   \<and> findForwardedMember commitEnv {''/w/a.scss''} commitContent ''p-reset'' ''/w/a.scss'' ''/w''
     = Inr None
   \<and> findMixinDefinition commitInner ''reset'' ''/w/b.scss'' = None
   \<and> findMixinDefinition (''@mixin reset { }'' @ [CHR 0x0A] @ ''@mixin in-reset { }'')
        ''reset'' ''/w/c.scss'' \<noteq> None
   \<and> findMixinDefinition (''@mixin reset { }'' @ [CHR 0x0A] @ ''@mixin in-reset { }'')
        ''in-reset'' ''/w/c.scss'' \<noteq> None"
proof -
  let ?skipped = "[\<lparr>fwdPath = ''./x'', fwdPrefix = Some ''q-'', fwdLine = 0\<rparr>,
                   \<lparr>fwdPath = ''./missing'', fwdPrefix = None, fwdLine = 1\<rparr>]"
  let ?st = "\<lparr>fwdPath = ''./b'', fwdPrefix = Some ''p-'', fwdLine = 2\<rparr>"
  let ?later = "[\<lparr>fwdPath = ''./c'', fwdPrefix = Some ''p-'', fwdLine = 3\<rparr>]"
  have h1: "''/w/a.scss'' \<notin> ({} :: string set)" by simp
  have h2: "parseForwardStatements commitContent = ?skipped @ ?st # ?later"
    unfolding commitContent_def by code_simp
  have h3: "\<forall>s \<in> set ?skipped. stripForwardPrefix s ''p-reset'' = None
              \<or> resolveModule commitEnv (fwdPath s) ''/w/a.scss'' ''/w'' = None"
    unfolding commitEnv_def commitContent_def commitInner_def by code_simp
  have h3': "\<forall>s \<in> set ?skipped. stripForwardPrefix s ''p-in-reset'' = None
              \<or> resolveModule commitEnv (fwdPath s) ''/w/a.scss'' ''/w'' = None"
    unfolding commitEnv_def commitContent_def commitInner_def by code_simp
  have h4: "stripForwardPrefix ?st ''p-reset'' = Some ''reset''" by code_simp
  have h4': "stripForwardPrefix ?st ''p-in-reset'' = Some ''in-reset''" by code_simp
  have h5: "resolveModule commitEnv (fwdPath ?st) ''/w/a.scss'' ''/w'' = Some ''/w/b.scss''"
    unfolding commitEnv_def commitContent_def commitInner_def by code_simp
  have h6: "readFile commitEnv ''/w/b.scss'' = Inr commitInner"
    unfolding commitEnv_def commitContent_def by code_simp
  have n: "findForwardedMember commitEnv (insert ''/w/a.scss'' {}) commitInner ''reset''
             ''/w/b.scss'' ''/w'' = Inr None"
    unfolding commitEnv_def commitInner_def commitContent_def by code_simp
  have n': "findForwardedMember commitEnv (insert ''/w/a.scss'' {}) commitInner ''in-reset''
             ''/w/b.scss'' ''/w''
            = Inr (Some \<lparr>originalName = ''reset'', forwardedPath = ''/w/deep.scss''\<rparr>)"
    unfolding commitEnv_def commitInner_def commitContent_def by code_simp
  have hop: "findForwardedMember commitEnv {} commitContent ''p-reset'' ''/w/a.scss'' ''/w''
     = Inr (Some \<lparr>originalName = ''reset'', forwardedPath = ''/w/b.scss''\<rparr>)"
    using first_matching_forward_commits
            [THEN conjunct2, THEN conjunct2, THEN conjunct2, THEN conjunct2, THEN mp, THEN mp, THEN mp, THEN mp, THEN mp, OF h1 h2 h3 h4 h5]
          h6 n
    by simp
  have nested: "findForwardedMember commitEnv {} commitContent ''p-in-reset'' ''/w/a.scss'' ''/w''
     = Inr (Some \<lparr>originalName = ''reset'', forwardedPath = ''/w/deep.scss''\<rparr>)"
    using first_matching_forward_commits
            [THEN conjunct2, THEN conjunct2, THEN conjunct2, THEN conjunct2, THEN mp, THEN mp, THEN mp, THEN mp, THEN mp, OF h1 h2 h3' h4' h5]
          h6 n'
    by simp
  have z: "\<forall>s \<in> set (parseForwardStatements commitContent).
             stripForwardPrefix s ''zzz'' = None
             \<or> resolveModule commitEnv (fwdPath s) ''/w/a.scss'' ''/w'' = None"
    unfolding commitEnv_def commitContent_def commitInner_def by code_simp
  have none: "findForwardedMember commitEnv {} commitContent ''zzz'' ''/w/a.scss'' ''/w'' = Inr None"
    using first_matching_forward_commits
            [THEN conjunct2, THEN conjunct2, THEN conjunct2, THEN conjunct1, THEN mp, THEN mp, OF h1 z] .
  have t1: "''/w/t.scss'' \<notin> ({} :: string set)" by simp
  have t2: "parseForwardStatements ''@forward \"./dir\";''
            = [] @ \<lparr>fwdPath = ''./dir'', fwdPrefix = None, fwdLine = 0\<rparr> # []"
    by code_simp
  have t3: "\<forall>s \<in> set ([] :: ForwardStatement list). stripForwardPrefix s ''reset'' = None
              \<or> resolveModule commitEnv (fwdPath s) ''/w/t.scss'' ''/w'' = None"
    by simp
  have t4: "stripForwardPrefix \<lparr>fwdPath = ''./dir'', fwdPrefix = None, fwdLine = 0\<rparr> ''reset''
            = Some ''reset''" by code_simp
  have t5: "resolveModule commitEnv (fwdPath \<lparr>fwdPath = ''./dir'', fwdPrefix = None, fwdLine = 0\<rparr>)
              ''/w/t.scss'' ''/w'' = Some ''/w/dir.scss''"
    unfolding commitEnv_def commitContent_def commitInner_def by code_simp
  have t6: "readFile commitEnv ''/w/dir.scss'' = Inl (ReadError ''/w/dir.scss'')"
    unfolding commitEnv_def commitContent_def commitInner_def by code_simp
  have throw: "findForwardedMember commitEnv {} ''@forward \"./dir\";'' ''reset'' ''/w/t.scss'' ''/w''
     = Inl (ReadError ''/w/dir.scss'')"
    using first_matching_forward_commits
            [THEN conjunct2, THEN conjunct2, THEN conjunct2, THEN conjunct2, THEN mp, THEN mp, THEN mp, THEN mp, THEN mp, OF t1 t2 t3 t4 t5]
          t6
    by simp
  have guard: "findForwardedMember commitEnv {''/w/a.scss''} commitContent ''p-reset'' ''/w/a.scss'' ''/w''
     = Inr None"
    using first_matching_forward_commits
            [THEN conjunct1, of commitEnv "{''/w/a.scss''}" commitContent "''p-reset''" "''/w/a.scss''" "''/w''"]
    by simp
  have m1: "findMixinDefinition commitInner ''reset'' ''/w/b.scss'' = None"
    unfolding commitInner_def by code_simp
  have m2: "findMixinDefinition (''@mixin reset { }'' @ [CHR 0x0A] @ ''@mixin in-reset { }'')
        ''reset'' ''/w/c.scss'' \<noteq> None" by code_simp
  have m3: "findMixinDefinition (''@mixin reset { }'' @ [CHR 0x0A] @ ''@mixin in-reset { }'')
        ''in-reset'' ''/w/c.scss'' \<noteq> None" by code_simp
  show ?thesis using hop nested none throw guard m1 m2 m3 by simp
qed

section \<open>Lookup through one renaming forward\<close>

lemma findForwardedMember_no_forwards:
  "parseForwardStatements content = [] \<Longrightarrow> findForwardedMember e V content m cur root = Inr None"
  by (simp add: findForwardedMember.simps)



lemma single_forward_hit:
  assumes "parseForwardStatements contentA = [st]"
    and "stripForwardPrefix st m = Some orig"
    and "resolveModule e (fwdPath st) fileA root = Some fileB"
    and "readFile e fileB = Inr contentB"
    and "parseForwardStatements contentB = []"
  shows "findForwardedMember e {} contentA m fileA root
           = Inr (Some \<lparr>originalName = orig, forwardedPath = fileB\<rparr>)"
proof -
  have "findForwardedMember e (insert fileA {}) contentB orig fileB root = Inr None"
    using assms(5) by (rule findForwardedMember_no_forwards)
  then show ?thesis
    using assms(1-4) by (simp add: findForwardedMember.simps)
qed







section \<open>The enumeration of forwarded members\<close>

text \<open>The members a file defines itself that the enumeration keeps.\<close>

definition publicMembers :: "MemberType \<Rightarrow> string \<Rightarrow> string \<Rightarrow> Definition list" where
  "publicMembers ty content fp = filter (\<lambda>m. \<not> isPrivate m) (directMembers ty content fp)"

lemma findAllForwardedMembers_no_forwards:
  "parseForwardStatements content = [] \<Longrightarrow>
   findAllForwardedMembers e content cur root ty V = Inr []"
  by (simp add: findAllForwardedMembers.simps)

lemma findAllForwardedMembers_single:
  assumes "cur \<notin> V"
    and "parseForwardStatements content = [st]"
    and "resolveModule e (fwdPath st) cur root = Some rp"
    and "readFile e rp = Inr fc"
    and "findAllForwardedMembers e fc rp root ty (insert cur V) = Inr nested"
  shows "findAllForwardedMembers e content cur root ty V
         = Inr (map (withPrefix (fwdPrefix st)) (publicMembers ty fc rp)
                @ map (withPrefix (fwdPrefix st)) nested)"
  using assms by (simp add: findAllForwardedMembers.simps publicMembers_def)

lemma nested_forward_members:
  assumes "parseForwardStatements contentA = [\<lparr>fwdPath = pathB, fwdPrefix = pB, fwdLine = lA\<rparr>]"
    and "resolveModule e pathB fileA root = Some fileB"
    and "readFile e fileB = Inr contentB"
    and "parseForwardStatements contentB = [\<lparr>fwdPath = pathC, fwdPrefix = pC, fwdLine = lB\<rparr>]"
    and "resolveModule e pathC fileB root = Some fileC"
    and "readFile e fileC = Inr contentC"
    and "parseForwardStatements contentC = []"
    and "fileB \<noteq> fileA"
  shows "findAllForwardedMembers e contentA fileA root ty {}
         = Inr (map (withPrefix pB) (publicMembers ty contentB fileB)
                @ map (withPrefix pB) (map (withPrefix pC) (publicMembers ty contentC fileC)))"
proof -
  have c: "findAllForwardedMembers e contentC fileC root ty (insert fileB (insert fileA {})) = Inr []"
    using assms(7) by (rule findAllForwardedMembers_no_forwards)
  have b: "findAllForwardedMembers e contentB fileB root ty (insert fileA {})
           = Inr (map (withPrefix pC) (publicMembers ty contentC fileC) @ map (withPrefix pC) [])"
    by (rule findAllForwardedMembers_single
          [where st = "\<lparr>fwdPath = pathC, fwdPrefix = pC, fwdLine = lB\<rparr>", simplified,
           OF _ assms(4) assms(5) assms(6) c])
       (use assms(8) in simp)
  have "findAllForwardedMembers e contentA fileA root ty {}
           = Inr (map (withPrefix pB) (publicMembers ty contentB fileB)
                  @ map (withPrefix pB) (map (withPrefix pC) (publicMembers ty contentC fileC) @ map (withPrefix pC) []))"
    by (rule findAllForwardedMembers_single
          [where st = "\<lparr>fwdPath = pathB, fwdPrefix = pB, fwdLine = lA\<rparr>", simplified,
           OF _ assms(1) assms(2) assms(3) b])
       simp
  then show ?thesis by simp
qed

lemma withPrefix_variable:
  assumes "p \<noteq> []"
  shows "withPrefix (Some p) (d\<lparr>name := CHR ''$'' # v\<rparr>) = d\<lparr>name := CHR ''$'' # p @ v\<rparr>"
  using assms by (simp add: withPrefix_def startsWith_def)

text \<open>
  C3. \<open>A\<close> forwards \<open>B\<close> with the prefix \<open>p\<close>, \<open>B\<close> forwards \<open>C\<close> with the prefix \<open>q\<close>, and \<open>C\<close>
  defines one variable, \<open>$v\<close>, that is not private; \<open>B\<close> defines no variable and \<open>C\<close> forwards
  nothing. Then the variables visible through \<open>A\<close> are exactly one: \<open>$\<close> followed by \<open>p\<close>, \<open>q\<close> and
  \<open>v\<close>. The prefix of the outer statement stands in front of the prefix of the inner one.
\<close>

theorem nested_prefix_composition:
  assumes "parseForwardStatements contentA = [\<lparr>fwdPath = pathB, fwdPrefix = Some p, fwdLine = lA\<rparr>]"
    and "resolveModule e pathB fileA root = Some fileB"
    and "readFile e fileB = Inr contentB"
    and "parseForwardStatements contentB = [\<lparr>fwdPath = pathC, fwdPrefix = Some q, fwdLine = lB\<rparr>]"
    and "resolveModule e pathC fileB root = Some fileC"
    and "readFile e fileC = Inr contentC"
    and "parseForwardStatements contentC = []"
    and "fileB \<noteq> fileA"
    and "p \<noteq> []" and "q \<noteq> []"
    and "findAllVariableDefinitions contentB fileB = []"
    and "findAllVariableDefinitions contentC fileC = [d]"
    and "name d = ''$'' @ v" and "\<not> startsWith v ''_''"
  shows "findAllForwardedMembers e contentA fileA root VariableType {}
         = Inr [d\<lparr>name := ''$'' @ p @ q @ v\<rparr>]"
proof -
  have d: "d = d\<lparr>name := ''$'' @ v\<rparr>" using assms(13) by simp
  have pub: "\<not> isPrivate d"
    using assms(13,14) by (simp add: isPrivate_def startsWith_def)
  have B: "publicMembers VariableType contentB fileB = []"
    using assms(11) by (simp add: publicMembers_def directMembers_def)
  have C: "publicMembers VariableType contentC fileC = [d]"
    using assms(12) pub by (simp add: publicMembers_def directMembers_def)
  have "withPrefix (Some p) (withPrefix (Some q) d) = d\<lparr>name := ''$'' @ p @ q @ v\<rparr>"
    by (subst d) (simp add: withPrefix_variable assms(9,10))
  then show ?thesis
    using nested_forward_members [OF assms(1-8), of VariableType] B C by simp
qed

text \<open>The files of the claim, with \<open>p-\<close>, \<open>q-\<close> and \<open>$primary\<close>.\<close>

definition nestedEnv :: env where
  "nestedEnv =
     \<lparr>nodes = [(''/w/a.scss'', File ''@forward \"./b\" as p-*;''),
               (''/w/b.scss'', File ''@forward \"./c\" as q-*;''),
               (''/w/c.scss'', File ''$primary: #fff;'')],
      cwd = ''/w'',
      jsonParse = (\<lambda>content. None)\<rparr>"

theorem nested_prefix_composition_witness:
  "findAllForwardedMembers nestedEnv ''@forward \"./b\" as p-*;'' ''/w/a.scss'' ''/w'' VariableType {}
     = Inr [\<lparr>name = ''$p-q-primary'', filePath = ''/w/c.scss'', line = 0, column = 0,
             parameters = None, varValue = Some ''#fff''\<rparr>]"
proof -
  let ?d = "\<lparr>name = ''$primary'', filePath = ''/w/c.scss'', line = 0, column = 0,
             parameters = None, varValue = Some ''#fff''\<rparr>"
  have h1: "parseForwardStatements ''@forward \"./b\" as p-*;''
            = [\<lparr>fwdPath = ''./b'', fwdPrefix = Some ''p-'', fwdLine = 0\<rparr>]" by code_simp
  have h2: "resolveModule nestedEnv ''./b'' ''/w/a.scss'' ''/w'' = Some ''/w/b.scss''"
    unfolding nestedEnv_def by code_simp
  have h3: "readFile nestedEnv ''/w/b.scss'' = Inr ''@forward \"./c\" as q-*;''"
    unfolding nestedEnv_def by code_simp
  have h4: "parseForwardStatements ''@forward \"./c\" as q-*;''
            = [\<lparr>fwdPath = ''./c'', fwdPrefix = Some ''q-'', fwdLine = 0\<rparr>]" by code_simp
  have h5: "resolveModule nestedEnv ''./c'' ''/w/b.scss'' ''/w'' = Some ''/w/c.scss''"
    unfolding nestedEnv_def by code_simp
  have h6: "readFile nestedEnv ''/w/c.scss'' = Inr ''$primary: #fff;''"
    unfolding nestedEnv_def by code_simp
  have h7: "parseForwardStatements ''$primary: #fff;'' = []" by code_simp
  have h8: "''/w/b.scss'' \<noteq> ''/w/a.scss''" by simp
  have h9: "''p-'' \<noteq> []" by simp
  have h10: "''q-'' \<noteq> []" by simp
  have h11: "findAllVariableDefinitions ''@forward \"./c\" as q-*;'' ''/w/b.scss'' = []" by code_simp
  have h12: "findAllVariableDefinitions ''$primary: #fff;'' ''/w/c.scss'' = [?d]" by code_simp
  have h13: "name ?d = ''$'' @ ''primary''" by simp
  have h14: "\<not> startsWith ''primary'' ''_''" by code_simp
  show ?thesis
    using nested_prefix_composition [OF h1 h2 h3 h4 h5 h6 h7 h8 h9 h10 h11 h12 h13 h14]
    by simp
qed

section \<open>What the scanners find\<close>

text \<open>A match that \<open>matchAll\<close> reports at an offset is a match of the pattern at that offset.\<close>

lemma matchAll_sound:
  "(i, a) \<in> set (matchAll m k s) \<Longrightarrow> k \<le> i \<and> (\<exists>n. m (drop (i - k) s) = Some (a, n))"
proof (induction m k s rule: matchAll.induct)
  case (1 m i)
  then show ?case by simp
next
  case (2 m k c cs)
  show ?case
  proof (cases "m (c # cs)")
    case None
    then have mem: "(i, a) \<in> set (matchAll m (Suc k) cs)" using 2(3) by simp
    have "Suc k \<le> i \<and> (\<exists>n. m (drop (i - Suc k) cs) = Some (a, n))"
      using 2(1) [OF None mem] .
    moreover have "drop (i - k) (c # cs) = drop (i - Suc k) cs" if "Suc k \<le> i"
    proof -
      have "i - k = Suc (i - Suc k)" using that by arith
      then show ?thesis by simp
    qed
    ultimately show ?thesis by auto
  next
    case (Some bn)
    obtain b n where bn: "bn = (b, n)" by (cases bn)
    have "(i, a) = (k, b) \<or> (i, a) \<in> set (matchAll m (Suc (k + (n - 1))) (drop (n - 1) cs))"
      using 2(3) Some bn by simp
    then show ?thesis
    proof
      assume "(i, a) = (k, b)"
      then show ?thesis using Some bn by simp
    next
      assume mem: "(i, a) \<in> set (matchAll m (Suc (k + (n - 1))) (drop (n - 1) cs))"
      have ih: "Suc (k + (n - 1)) \<le> i
          \<and> (\<exists>n'. m (drop (i - Suc (k + (n - 1))) (drop (n - 1) cs)) = Some (a, n'))"
        using 2(2) [OF Some bn [symmetric] mem] .
      have "i - k = Suc ((i - Suc (k + (n - 1))) + (n - 1))" using ih by arith
      then have "drop (i - Suc (k + (n - 1))) (drop (n - 1) cs) = drop (i - k) (c # cs)"
        by simp
      then show ?thesis using ih by auto
    qed
  qed
qed

lemma find_Some_member: "find P xs = Some x \<Longrightarrow> x \<in> set xs \<and> P x"
  by (induction xs) (auto split: if_splits)

text \<open>A pattern that matches at no offset of a line has no match in it.\<close>

lemma matchAll_none:
  assumes "\<And>i. m (drop i s) = None"
  shows "matchAll m k s = []"
  using assms
proof (induction s arbitrary: k)
  case Nil
  then show ?case by simp
next
  case (Cons c cs)
  have "m (c # cs) = None" using Cons.prems [of 0] by simp
  moreover have "matchAll m (Suc k) cs = []"
  proof (rule Cons.IH)
    fix i
    show "m (drop i cs) = None" using Cons.prems [of "Suc i"] by simp
  qed
  ultimately show ?case by simp
qed

text \<open>The first match of a line is at the first offset at which the pattern matches.\<close>

lemma matchAll_first:
  assumes "k < length s" and "\<forall>i<k. m (drop i s) = None" and "m (drop k s) = Some (a, n)"
  shows "\<exists>others. matchAll m j s = (j + k, a) # others"
  using assms
proof (induction k arbitrary: s j)
  case 0
  then obtain c cs where "s = c # cs" by (cases s) auto
  then show ?case using 0 by simp
next
  case (Suc k)
  then obtain c cs where s: "s = c # cs" by (cases s) auto
  have "m (drop 0 s) = None" using Suc.prems(2) by blast
  then have none: "m (c # cs) = None" using s by simp
  have "\<exists>others. matchAll m (Suc j) cs = (Suc j + k, a) # others"
  proof (rule Suc.IH)
    show "k < length cs" using Suc.prems(1) s by simp
    show "\<forall>i<k. m (drop i cs) = None"
    proof (intro allI impI)
      fix i assume "i < k"
      then have "m (drop (Suc i) s) = None" using Suc.prems(2) by simp
      then show "m (drop i cs) = None" using s by simp
    qed
    show "m (drop k cs) = Some (a, n)" using Suc.prems(3) s by simp
  qed
  then show ?case using none s by simp
qed

text \<open>\<open>indexOf\<close> returns nothing on a line: the text occurs at no offset of the line.\<close>

lemma indexOf_None: "indexOf s p = None \<Longrightarrow> \<not> startsWith (drop i s) p"
proof (induction s arbitrary: i)
  case Nil
  then show ?case by (auto simp: startsWith_def split: if_splits)
next
  case (Cons c cs)
  from Cons.prems have a: "\<not> startsWith (c # cs) p" and b: "indexOf cs p = None"
    by (auto split: if_splits)
  show ?case
  proof (cases i)
    case 0
    then show ?thesis using a by simp
  next
    case (Suc j)
    then show ?thesis using Cons.IH [OF b, of j] by simp
  qed
qed

lemma isName_not_space: "isName c \<Longrightarrow> \<not> isSpace c"
  by (auto simp: isName_def isWord_def isSpace_def Let_def)

lemma takeWhile_run:
  assumes "\<forall>x \<in> set xs. P x" and "ys = [] \<or> \<not> P (hd ys)"
  shows "takeWhile P (xs @ ys) = xs" and "dropWhile P (xs @ ys) = ys"
proof -
  have t: "takeWhile P ys = []" and d: "dropWhile P ys = ys"
    using assms(2) by (cases ys; simp)+
  show "takeWhile P (xs @ ys) = xs" using assms(1) t by (simp add: takeWhile_append2)
  show "dropWhile P (xs @ ys) = ys" using assms(1) d by (simp add: dropWhile_append2)
qed

text \<open>A line that begins, after its indentation, with neither white space nor \<open>/\<close> is no comment.\<close>

lemma indented_not_comment:
  assumes "\<forall>x \<in> set indent. isSpace x" and "\<not> isSpace c" and "c \<noteq> CHR ''/''"
  shows "\<not> isCommentLine (indent @ c # t)"
proof -
  have "dropWhile isSpace (indent @ c # t) = c # t"
    using assms(1,2) by (simp add: dropWhile_append2)
  moreover have "dropWhile isSpace (rev t @ [c]) = dropWhile isSpace (rev t) @ [c]"
    using assms(2) by (simp add: dropWhile_append3)
  ultimately have "trim (indent @ c # t) = c # rev (dropWhile isSpace (rev t))"
    by (simp add: trim_def)
  then show ?thesis using assms(3) by (simp add: isCommentLine_def startsWith_def)
qed

lemma indented_offset:
  assumes "i < length indent" and "\<forall>x \<in> set indent. isSpace x"
  shows "\<exists>x t. isSpace x \<and> drop i (indent @ rest) = x # t"
proof -
  have "drop i indent \<noteq> []" using assms(1) by simp
  then obtain x t' where xt: "drop i indent = x # t'" by (cases "drop i indent") auto
  then have "x \<in> set indent" by (metis in_set_dropD list.set_intros(1))
  then have "isSpace x" using assms(2) by blast
  moreover have "drop i (indent @ rest) = x # t' @ rest" using assms(1) xt by simp
  ultimately show ?thesis by blast
qed

text \<open>\<open>MIXIN_PATTERN\<close> on the head of a mixin definition, and where it cannot match.\<close>

lemma MIXIN_PATTERN_header:
  assumes "w1 \<noteq> []" and "\<forall>x \<in> set w1. isSpace x"
    and "nm \<noteq> []" and "\<forall>x \<in> set nm. isName x"
    and "\<forall>x \<in> set w2. isSpace x"
    and "c = CHR ''('' \<or> c = CHR ''{''"
  shows "MIXIN_PATTERN (''@mixin'' @ w1 @ nm @ w2 @ c # rest)
         = Some (nm, 6 + length w1 + length nm + length w2 + 1)"
proof -
  have cn: "\<not> isName c" and cs: "\<not> isSpace c"
    using assms(6) by (auto simp: isName_def isWord_def isSpace_def Let_def)
  have sw: "startsWith (''@mixin'' @ w1 @ nm @ w2 @ c # rest) ''@mixin''"
    by (simp add: startsWith_def)
  have d6: "drop 6 (''@mixin'' @ w1 @ nm @ w2 @ c # rest) = w1 @ (nm @ w2 @ c # rest)" by simp
  have h1: "nm @ w2 @ c # rest = [] \<or> \<not> isSpace (hd (nm @ w2 @ c # rest))"
    using assms(3,4) isName_not_space by (cases nm) auto
  have h2: "w2 @ c # rest = [] \<or> \<not> isName (hd (w2 @ c # rest))"
    using assms(5) cn isName_not_space by (cases w2) auto
  have h3: "c # rest = [] \<or> \<not> isSpace (hd (c # rest))" using cs by simp
  note r1 = takeWhile_run [OF assms(2) h1]
  note r2 = takeWhile_run [OF assms(4) h2]
  note r3 = takeWhile_run [OF assms(5) h3]
  show ?thesis
    unfolding MIXIN_PATTERN_def Let_def d6 r1 r2 r3
    using sw assms(1,3,6) by simp
qed

lemma MIXIN_PATTERN_keyword: "MIXIN_PATTERN s = Some (nm, n) \<Longrightarrow> startsWith s ''@mixin''"
  by (auto simp: MIXIN_PATTERN_def split: if_splits)

lemma MIXIN_PATTERN_capture:
  assumes "MIXIN_PATTERN s = Some (nm, n)"
  shows "\<exists>k. startsWith (drop k s) nm"
proof -
  define r2 where "r2 = dropWhile isSpace (drop 6 s)"
  have nm: "nm = takeWhile isName r2"
    using assms unfolding MIXIN_PATTERN_def Let_def r2_def
    by (auto split: if_splits list.splits)
  have "r2 = drop (length (takeWhile isSpace (drop 6 s)) + 6) s"
    unfolding r2_def by (simp add: dropWhile_eq_drop)
  moreover have "startsWith r2 nm"
    unfolding nm startsWith_def by (rule takeWhile_eq_take [symmetric])
  ultimately show ?thesis by metis
qed

text \<open>
  \<open>findMixinDefinition\<close> finds the definition of a mixin at its line, at the column at which
  the keyword \<open>@mixin\<close> starts, when the name does not occur on a line before.
\<close>

lemma findMixinFrom_found:
  assumes "\<forall>l \<in> set before. indexOf l nm = None"
    and "\<forall>x \<in> set indent. isSpace x"
    and "w1 \<noteq> []" and "\<forall>x \<in> set w1. isSpace x"
    and "nm \<noteq> []" and "\<forall>x \<in> set nm. isName x"
    and "\<forall>x \<in> set w2. isSpace x"
    and "c = CHR ''('' \<or> c = CHR ''{''"
  shows "findMixinFrom content nm fp ln
           (before @ (indent @ ''@mixin'' @ w1 @ nm @ w2 @ c # rest) # after)
         = Some \<lparr>name = nm, filePath = fp, line = ln + length before, column = length indent,
                 parameters = parseMixinParameters content nm (ln + length before),
                 varValue = None\<rparr>"
  using assms(1)
proof (induction before arbitrary: ln)
  case Nil
  let ?head = "''@mixin'' @ w1 @ nm @ w2 @ c # rest"
  let ?l = "indent @ ?head"
  have nc: "\<not> isCommentLine ?l"
    using indented_not_comment [OF assms(2), of "CHR ''@''" "''mixin'' @ w1 @ nm @ w2 @ c # rest"]
    by (simp add: isSpace_def)
  have at: "MIXIN_PATTERN (drop (length indent) ?l)
            = Some (nm, 6 + length w1 + length nm + length w2 + 1)"
    using MIXIN_PATTERN_header [OF assms(3-8)] by simp
  have before_it: "\<forall>i < length indent. MIXIN_PATTERN (drop i ?l) = None"
  proof (intro allI impI)
    fix i assume "i < length indent"
    then obtain x t where x: "isSpace x" "drop i ?l = x # t"
      using indented_offset [OF _ assms(2)] by blast
    have "x \<noteq> CHR ''@''" using x(1) by (auto simp: isSpace_def)
    then show "MIXIN_PATTERN (drop i ?l) = None"
      unfolding x(2) by (simp add: MIXIN_PATTERN_def startsWith_def)
  qed
  have "length indent < length ?l" by simp
  then obtain others where
      m: "matchAll MIXIN_PATTERN 0 ?l = (0 + length indent, nm) # others"
    using matchAll_first [OF _ before_it at] by blast
  show ?case using nc m by simp
next
  case (Cons l before)
  have absent: "indexOf l nm = None" using Cons.prems by simp
  have "find (\<lambda>(index, foundMixinName). foundMixinName = nm) (matchAll MIXIN_PATTERN 0 l) = None"
  proof (rule ccontr)
    assume "find (\<lambda>(index, foundMixinName). foundMixinName = nm) (matchAll MIXIN_PATTERN 0 l) \<noteq> None"
    then obtain i a where f: "find (\<lambda>(index, foundMixinName). foundMixinName = nm)
                                (matchAll MIXIN_PATTERN 0 l) = Some (i, a)"
      by auto
    have fm: "(i, a) \<in> set (matchAll MIXIN_PATTERN 0 l)
              \<and> (case (i, a) of (index, foundMixinName) \<Rightarrow> foundMixinName = nm)"
      by (rule find_Some_member [OF f])
    then have "\<exists>n. MIXIN_PATTERN (drop (i - 0) l) = Some (nm, n)"
      using matchAll_sound [of i a MIXIN_PATTERN 0 l] by auto
    then obtain n where "MIXIN_PATTERN (drop i l) = Some (nm, n)" by auto
    then obtain k where "startsWith (drop k (drop i l)) nm"
      using MIXIN_PATTERN_capture by blast
    then have "startsWith (drop (k + i) l) nm" by simp
    then show False using indexOf_None [OF absent] by blast
  qed
  moreover have "findMixinFrom content nm fp (Suc ln)
           (before @ (indent @ ''@mixin'' @ w1 @ nm @ w2 @ c # rest) # after)
         = Some \<lparr>name = nm, filePath = fp, line = Suc ln + length before, column = length indent,
                 parameters = parseMixinParameters content nm (Suc ln + length before),
                 varValue = None\<rparr>"
    using Cons.prems by (intro Cons.IH) simp
  ultimately show ?case by simp
qed

text \<open>The same for \<open>findVariableDefinition\<close> and the line that assigns the variable.\<close>

lemma varPattern_line:
  assumes "\<forall>x \<in> set w. isSpace x"
  shows "varPattern vn (vn @ w @ CHR '':'' # rest) = Some ((), length vn + length w + 1)"
proof -
  have h: "CHR '':'' # rest = [] \<or> \<not> isSpace (hd (CHR '':'' # rest))"
    by (simp add: isSpace_def)
  note r = takeWhile_run [OF assms h]
  show ?thesis
    unfolding varPattern_def Let_def by (simp add: startsWith_def r)
qed

lemma varPattern_none: "\<not> startsWith s vn \<Longrightarrow> varPattern vn s = None"
  by (simp add: varPattern_def Let_def)

lemma findVariableFrom_found:
  assumes "\<forall>l \<in> set before. indexOf l vn = None"
    and "\<forall>x \<in> set indent. isSpace x"
    and "startsWith vn ''$''"
    and "\<forall>x \<in> set w. isSpace x"
  shows "findVariableFrom vn fp ln (before @ (indent @ vn @ w @ CHR '':'' # rest) # after)
         = Some \<lparr>name = vn, filePath = fp, line = ln + length before, column = length indent,
                 parameters = None, varValue = None\<rparr>"
  using assms(1)
proof (induction before arbitrary: ln)
  case Nil
  obtain v where vn: "vn = CHR ''$'' # v"
    using assms(3) by (cases vn) (auto simp: startsWith_def)
  let ?l = "indent @ vn @ w @ CHR '':'' # rest"
  have nc: "\<not> isCommentLine ?l"
    using indented_not_comment [OF assms(2), of "CHR ''$''" "v @ w @ CHR '':'' # rest"]
    by (simp add: isSpace_def vn)
  have at: "varPattern vn (drop (length indent) ?l) = Some ((), length vn + length w + 1)"
    using varPattern_line [OF assms(4)] by simp
  have before_it: "\<forall>i < length indent. varPattern vn (drop i ?l) = None"
  proof (intro allI impI)
    fix i assume "i < length indent"
    then obtain x t where x: "isSpace x" "drop i ?l = x # t"
      using indented_offset [OF _ assms(2)] by blast
    have "x \<noteq> CHR ''$''" using x(1) by (auto simp: isSpace_def)
    then have "\<not> startsWith (x # t) vn" by (simp add: startsWith_def vn)
    then show "varPattern vn (drop i ?l) = None"
      unfolding x(2) by (rule varPattern_none)
  qed
  have "length indent < length ?l" by simp
  then obtain others where
      m: "matchAll (varPattern vn) 0 ?l = (0 + length indent, ()) # others"
    using matchAll_first [OF _ before_it at] by blast
  show ?case using nc m by simp
next
  case (Cons l before)
  have absent: "indexOf l vn = None" using Cons.prems by simp
  have "matchAll (varPattern vn) 0 l = []"
  proof (rule matchAll_none)
    fix i
    show "varPattern vn (drop i l) = None"
      using indexOf_None [OF absent] by (rule varPattern_none)
  qed
  moreover have "findVariableFrom vn fp (Suc ln)
           (before @ (indent @ vn @ w @ CHR '':'' # rest) # after)
         = Some \<lparr>name = vn, filePath = fp, line = Suc ln + length before, column = length indent,
                 parameters = None, varValue = None\<rparr>"
    using Cons.prems by (intro Cons.IH) simp
  ultimately show ?case by simp
qed

text \<open>A file in which no line holds the keyword \<open>@forward\<close> forwards nothing.\<close>

lemma FORWARD_PATTERN_keyword: "FORWARD_PATTERN s = Some r \<Longrightarrow> startsWith s ''@forward''"
  by (auto simp: FORWARD_PATTERN_def quotedPathAfter_def split: if_splits option.splits)

lemma forwardsFrom_none:
  assumes "\<forall>l \<in> set ls. indexOf l ''@forward'' = None"
  shows "forwardsFrom n ls = []"
  using assms
proof (induction ls arbitrary: n)
  case Nil
  then show ?case by simp
next
  case (Cons l ls)
  have absent: "indexOf l ''@forward'' = None" using Cons.prems by simp
  have "matchAll FORWARD_PATTERN 0 l = []"
  proof (rule matchAll_none)
    fix i
    have "\<not> startsWith (drop i l) ''@forward''" using indexOf_None [OF absent] .
    then show "FORWARD_PATTERN (drop i l) = None"
      using FORWARD_PATTERN_keyword by (cases "FORWARD_PATTERN (drop i l)") auto
  qed
  then have "forwardsOfLine n l = []" by (simp add: forwardsOfLine_def)
  moreover have "forwardsFrom (Suc n) ls = []" using Cons.prems by (intro Cons.IH) simp
  ultimately show ?case by simp
qed

lemma parseForwardStatements_none:
  "\<forall>l \<in> set (splitLines content). indexOf l ''@forward'' = None
   \<Longrightarrow> parseForwardStatements content = []"
  unfolding parseForwardStatements_def by (rule forwardsFrom_none)

text \<open>The lookup of a member reference, once the search through the forwards has returned.\<close>

lemma resolveDefinition_member:
  assumes "readFile e (currentFilePath ctx) = Inr cc"
    and "findUseByNamespace cc (namespace ctx) = Some u"
    and "resolveModule e (usePath u) (currentFilePath ctx) (workspaceRoot ctx) = Some fileA"
    and "cursorTarget ctx = MemberTarget"
    and "readFile e fileA = Inr contentA"
    and "findForwardedMember e {} contentA (member ctx) fileA (workspaceRoot ctx) = Inr fr"
    and "findTarget fileA (member ctx) fr = (tf, tn)"
    and "readFile e tf = Inr tc"
  shows "resolveDefinition e ctx =
     Inr (map_option locationOf
            (if startsWith (member ctx) ''$'' then findVariableDefinition tc tn tf
             else findMixinDefinition tc tn tf))"
  using assms
  by (simp add: resolveDefinition_def resolveDefinitionBody_def catchAll_def split: option.splits)

section \<open>Private members\<close>

text \<open>
  The scanner finds at most one definition at a line and column: the matches of a line start
  at different columns, and the lines are numbered upwards.
\<close>

lemma matchAll_index_ge: "x \<in> set (matchAll m k s) \<Longrightarrow> k \<le> fst x"
proof (induction m k s rule: matchAll.induct)
  case (1 m i)
  then show ?case by simp
next
  case (2 m i c cs)
  show ?case
  proof (cases "m (c # cs)")
    case None
    then have "x \<in> set (matchAll m (Suc i) cs)" using 2(3) by simp
    then have "Suc i \<le> fst x" using 2(1) None by simp
    then show ?thesis by simp
  next
    case (Some an)
    obtain a n where an: "an = (a, n)" by (cases an)
    have "x = (i, a) \<or> x \<in> set (matchAll m (Suc (i + (n - 1))) (drop (n - 1) cs))"
      using 2(3) Some an by simp
    then show ?thesis
    proof
      assume "x = (i, a)"
      then show ?thesis by simp
    next
      assume "x \<in> set (matchAll m (Suc (i + (n - 1))) (drop (n - 1) cs))"
      then have "Suc (i + (n - 1)) \<le> fst x" using 2(2) Some an by simp
      then show ?thesis by simp
    qed
  qed
qed

lemma matchAll_distinct: "distinct (map fst (matchAll m k s))"
proof (induction m k s rule: matchAll.induct)
  case (1 m i)
  then show ?case by simp
next
  case (2 m i c cs)
  show ?case
  proof (cases "m (c # cs)")
    case None
    then show ?thesis using 2(1) by simp
  next
    case (Some an)
    obtain a n where an: "an = (a, n)" by (cases an)
    have d: "distinct (map fst (matchAll m (Suc (i + (n - 1))) (drop (n - 1) cs)))"
      using 2(2) Some an by simp
    have "i \<notin> fst ` set (matchAll m (Suc (i + (n - 1))) (drop (n - 1) cs))"
    proof
      assume "i \<in> fst ` set (matchAll m (Suc (i + (n - 1))) (drop (n - 1) cs))"
      then obtain x where "x \<in> set (matchAll m (Suc (i + (n - 1))) (drop (n - 1) cs))" "fst x = i"
        by auto
      then show False using matchAll_index_ge [of x m "Suc (i + (n - 1))" "drop (n - 1) cs"] by simp
    qed
    then show ?thesis using d Some an by simp
  qed
qed

text \<open>The place of a definition in its file.\<close>

definition position :: "Definition \<Rightarrow> nat \<times> nat" where
  "position d = (line d, column d)"

lemma mixinsOfLine_line: "d \<in> set (mixinsOfLine content fp ln l) \<Longrightarrow> line d = ln \<and> filePath d = fp"
  by (auto simp: mixinsOfLine_def split: if_splits)

lemma mixinsOfLine_columns: "map column (mixinsOfLine content fp ln l) = (if isCommentLine l then [] else map fst (matchAll MIXIN_PATTERN 0 l))"
  by (simp add: mixinsOfLine_def comp_def case_prod_beta)

lemma variablesOfLine_line: "d \<in> set (variablesOfLine fp ln l) \<Longrightarrow> line d = ln \<and> filePath d = fp"
  by (auto simp: variablesOfLine_def Let_def)

lemma variablesOfLine_columns: "map column (variablesOfLine fp ln l) = map fst (matchAll VARIABLE_PATTERN 0 l)"
  by (simp add: variablesOfLine_def comp_def case_prod_beta Let_def)

lemma distinct_positions_of_columns:
  assumes "\<And>d. d \<in> set ds \<Longrightarrow> line d = ln" and "distinct (map column ds)"
  shows "distinct (map position ds)"
proof -
  have "inj_on position (set ds)"
  proof (rule inj_onI)
    fix x y assume xy: "x \<in> set ds" "y \<in> set ds" "position x = position y"
    then have "column x = column y" by (simp add: position_def)
    moreover have "inj_on column (set ds)" using assms(2) by (simp add: distinct_map)
    ultimately show "x = y" using xy(1,2) by (auto dest: inj_onD)
  qed
  moreover have "distinct ds" using assms(2) by (simp add: distinct_map)
  ultimately show ?thesis by (simp add: distinct_map)
qed

lemma distinct_positions_append:
  assumes "distinct (map position xs)" and "distinct (map position ys)"
    and "\<And>d. d \<in> set xs \<Longrightarrow> line d = ln" and "\<And>d. d \<in> set ys \<Longrightarrow> Suc ln \<le> line d"
  shows "distinct (map position (xs @ ys))"
proof -
  have "position ` set xs \<inter> position ` set ys = {}"
  proof (rule ccontr)
    assume "position ` set xs \<inter> position ` set ys \<noteq> {}"
    then obtain z where "z \<in> position ` set xs" "z \<in> position ` set ys" by blast
    then obtain x y where "x \<in> set xs" "y \<in> set ys" "position x = position y"
      by (metis imageE)
    then have "line x = ln" "Suc ln \<le> line y" "line x = line y"
      using assms(3,4) by (auto simp: position_def)
    then show False by simp
  qed
  then show ?thesis using assms(1,2) by simp
qed

lemma allMixinsFrom_line:
  "d \<in> set (allMixinsFrom content fp ln ls) \<Longrightarrow> ln \<le> line d \<and> filePath d = fp"
proof (induction ls arbitrary: ln)
  case Nil
  then show ?case by simp
next
  case (Cons l ls)
  from Cons.prems have "d \<in> set (mixinsOfLine content fp ln l) \<or> d \<in> set (allMixinsFrom content fp (Suc ln) ls)"
    by simp
  then show ?case
  proof
    assume "d \<in> set (mixinsOfLine content fp ln l)"
    then show ?thesis using mixinsOfLine_line by fastforce
  next
    assume "d \<in> set (allMixinsFrom content fp (Suc ln) ls)"
    then have "Suc ln \<le> line d \<and> filePath d = fp" by (rule Cons.IH)
    then show ?thesis by simp
  qed
qed

lemma allMixinsFrom_distinct: "distinct (map position (allMixinsFrom content fp ln ls))"
proof (induction ls arbitrary: ln)
  case Nil
  then show ?case by simp
next
  case (Cons l ls)
  have a: "distinct (map position (mixinsOfLine content fp ln l))"
  proof (rule distinct_positions_of_columns)
    show "\<And>d. d \<in> set (mixinsOfLine content fp ln l) \<Longrightarrow> line d = ln"
      using mixinsOfLine_line by blast
    show "distinct (map column (mixinsOfLine content fp ln l))"
      by (simp add: mixinsOfLine_columns matchAll_distinct)
  qed
  have "distinct (map position (mixinsOfLine content fp ln l @ allMixinsFrom content fp (Suc ln) ls))"
  proof (rule distinct_positions_append [where ln = ln])
    show "distinct (map position (mixinsOfLine content fp ln l))" by (rule a)
    show "distinct (map position (allMixinsFrom content fp (Suc ln) ls))" by (rule Cons.IH)
    show "\<And>d. d \<in> set (mixinsOfLine content fp ln l) \<Longrightarrow> line d = ln"
      using mixinsOfLine_line by blast
    show "\<And>d. d \<in> set (allMixinsFrom content fp (Suc ln) ls) \<Longrightarrow> Suc ln \<le> line d"
      using allMixinsFrom_line by blast
  qed
  then show ?case by simp
qed

lemma allVariablesFrom_line:
  "d \<in> set (allVariablesFrom fp ln b ls) \<Longrightarrow> ln \<le> line d \<and> filePath d = fp"
proof (induction ls arbitrary: ln b)
  case Nil
  then show ?case by simp
next
  case (Cons l ls)
  from Cons.prems have "d \<in> set (variablesOfLine fp ln l)
      \<or> (\<exists>b'. d \<in> set (allVariablesFrom fp (Suc ln) b' ls))"
    by (auto simp: Let_def split: if_splits)
  then show ?case
  proof
    assume "d \<in> set (variablesOfLine fp ln l)"
    then show ?thesis using variablesOfLine_line by fastforce
  next
    assume "\<exists>b'. d \<in> set (allVariablesFrom fp (Suc ln) b' ls)"
    then obtain b' where "d \<in> set (allVariablesFrom fp (Suc ln) b' ls)" by blast
    then have "Suc ln \<le> line d \<and> filePath d = fp" by (rule Cons.IH)
    then show ?thesis by simp
  qed
qed

lemma allVariablesFrom_distinct: "distinct (map position (allVariablesFrom fp ln b ls))"
proof (induction ls arbitrary: ln b)
  case Nil
  then show ?case by simp
next
  case (Cons l ls)
  have a: "distinct (map position (variablesOfLine fp ln l))"
  proof (rule distinct_positions_of_columns)
    show "\<And>d. d \<in> set (variablesOfLine fp ln l) \<Longrightarrow> line d = ln"
      using variablesOfLine_line by blast
    show "distinct (map column (variablesOfLine fp ln l))"
      by (simp add: variablesOfLine_columns matchAll_distinct)
  qed
  have app: "\<And>b'. distinct (map position (variablesOfLine fp ln l @ allVariablesFrom fp (Suc ln) b' ls))"
  proof -
    fix b'
    show "distinct (map position (variablesOfLine fp ln l @ allVariablesFrom fp (Suc ln) b' ls))"
    proof (rule distinct_positions_append [where ln = ln])
      show "distinct (map position (variablesOfLine fp ln l))" by (rule a)
      show "distinct (map position (allVariablesFrom fp (Suc ln) b' ls))" by (rule Cons.IH)
      show "\<And>d. d \<in> set (variablesOfLine fp ln l) \<Longrightarrow> line d = ln"
        using variablesOfLine_line by blast
      show "\<And>d. d \<in> set (allVariablesFrom fp (Suc ln) b' ls) \<Longrightarrow> Suc ln \<le> line d"
        using allVariablesFrom_line by blast
    qed
  qed
  show ?case
    using app Cons.IH by (simp add: Let_def del: distinct_append map_append)
qed

lemma directMembers_filePath: "d \<in> set (directMembers ty content fp) \<Longrightarrow> filePath d = fp"
  by (cases ty)
     (auto simp: directMembers_def findAllMixinDefinitionsWithParams_def
        findAllVariableDefinitions_def dest: allMixinsFrom_line allVariablesFrom_line)

lemma directMembers_distinct: "distinct (map position (directMembers ty content fp))"
  by (cases ty)
     (simp_all add: directMembers_def findAllMixinDefinitionsWithParams_def
        findAllVariableDefinitions_def allMixinsFrom_distinct allVariablesFrom_distinct)

lemma directMembers_same_position:
  assumes "d \<in> set (directMembers ty content fp)" and "d' \<in> set (directMembers ty content fp)"
    and "position d' = position d"
  shows "d' = d"
proof -
  have "inj_on position (set (directMembers ty content fp))"
    using directMembers_distinct [of ty content fp] by (simp add: distinct_map)
  then show ?thesis using assms by (auto dest: inj_onD)
qed

lemma withPrefix_fields:
  "filePath (withPrefix pfx m) = filePath m"
  "line (withPrefix pfx m) = line m"
  "column (withPrefix pfx m) = column m"
  by (simp_all add: withPrefix_def Let_def split: option.splits)

lemma foldr_withPrefix_fields:
  "filePath (foldr withPrefix ps m) = filePath m"
  "position (foldr withPrefix ps m) = position m"
  by (induction ps) (simp_all add: withPrefix_fields position_def)

text \<open>
  A member of a listing stems from a public definition: the file it names can be read, and
  the one definition that the scanner finds at its line and column there is not private;
  the member is that definition, renamed by the prefixes on the way.
\<close>

definition fromPublic :: "env \<Rightarrow> MemberType \<Rightarrow> Definition \<Rightarrow> bool" where
  "fromPublic e ty r =
     (\<exists>fc d ps. readFile e (filePath r) = Inr fc
        \<and> d \<in> set (directMembers ty fc (filePath r))
        \<and> \<not> isPrivate d
        \<and> r = foldr withPrefix ps d
        \<and> (\<forall>d' \<in> set (directMembers ty fc (filePath r)). position d' = position r \<longrightarrow> d' = d))"

lemma fromPublic_direct:
  assumes "readFile e rp = Inr fc" and "d \<in> set (directMembers ty fc rp)" and "\<not> isPrivate d"
  shows "fromPublic e ty (withPrefix pfx d)"
proof -
  have fp: "filePath d = rp" using assms(2) by (rule directMembers_filePath)
  have "withPrefix pfx d = foldr withPrefix [pfx] d" by simp
  moreover have "\<forall>d' \<in> set (directMembers ty fc rp). position d' = position (withPrefix pfx d) \<longrightarrow> d' = d"
    using assms(2) directMembers_same_position
    by (auto simp: position_def withPrefix_fields)
  ultimately show ?thesis
    unfolding fromPublic_def using assms fp
    by (metis withPrefix_fields(1))
qed

lemma fromPublic_nested:
  assumes "fromPublic e ty r"
  shows "fromPublic e ty (withPrefix pfx r)"
proof -
  from assms obtain fc d ps where h: "readFile e (filePath r) = Inr fc"
      "d \<in> set (directMembers ty fc (filePath r))" "\<not> isPrivate d" "r = foldr withPrefix ps d"
      "\<forall>d' \<in> set (directMembers ty fc (filePath r)). position d' = position r \<longrightarrow> d' = d"
    unfolding fromPublic_def by blast
  have f: "filePath (withPrefix pfx r) = filePath r" by (rule withPrefix_fields)
  have p: "position (withPrefix pfx r) = position r" by (simp add: position_def withPrefix_fields)
  have r: "withPrefix pfx r = foldr withPrefix (pfx # ps) d" using h(4) by simp
  show ?thesis
    unfolding fromPublic_def f p
    using h(1,2,3,5) r by blast
qed

lemma enumeration_fromPublic:
  "(\<forall>rs. findAllForwardedMembers e content cur root ty V = Inr rs \<longrightarrow> (\<forall>r \<in> set rs. fromPublic e ty r))"
  "(\<forall>rs. allForwardsLoop e cur root ty V statements = Inr rs \<longrightarrow> (\<forall>r \<in> set rs. fromPublic e ty r))"
proof (induction e content cur root ty V and e cur root ty V statements
        rule: findAllForwardedMembers_allForwardsLoop.induct)
  case (1 e content currentFilePath workspaceRoot ty visitedFiles)
  then show ?case by (auto simp: findAllForwardedMembers.simps split: if_splits)
next
  case (2 e currentFilePath workspaceRoot ty visitedFiles)
  then show ?case by simp
next
  case (3 e currentFilePath workspaceRoot ty visitedFiles statement statements)
  show ?case
  proof (intro allI impI ballI)
    fix rs r
    assume eq: "allForwardsLoop e currentFilePath workspaceRoot ty visitedFiles (statement # statements) = Inr rs"
      and r: "r \<in> set rs"
    show "fromPublic e ty r"
    proof (cases "resolveModule e (fwdPath statement) currentFilePath workspaceRoot")
      case None
      then have "allForwardsLoop e currentFilePath workspaceRoot ty visitedFiles statements = Inr rs"
        using eq by simp
      then show ?thesis using 3(1) None r by blast
    next
      case (Some rp)
      then obtain fc where fc: "readFile e rp = Inr fc"
        using eq by (cases "readFile e rp") auto
      obtain nested where nested: "findAllForwardedMembers e fc rp workspaceRoot ty visitedFiles = Inr nested"
        using eq Some fc by (cases "findAllForwardedMembers e fc rp workspaceRoot ty visitedFiles") auto
      obtain later where later: "allForwardsLoop e currentFilePath workspaceRoot ty visitedFiles statements = Inr later"
        using eq Some fc nested
        by (cases "allForwardsLoop e currentFilePath workspaceRoot ty visitedFiles statements") auto
      have rs: "rs = map (withPrefix (fwdPrefix statement))
                        (filter (\<lambda>m. \<not> isPrivate m) (directMembers ty fc rp))
                     @ map (withPrefix (fwdPrefix statement)) nested @ later"
        using eq Some fc nested later by simp
      have n: "\<forall>x \<in> set nested. fromPublic e ty x" using 3(2) Some fc nested by blast
      have l: "\<forall>x \<in> set later. fromPublic e ty x" using 3(3) Some fc nested later by blast
      from r rs consider
          (direct) d where "d \<in> set (directMembers ty fc rp)" "\<not> isPrivate d"
                           "r = withPrefix (fwdPrefix statement) d"
        | (nested) x where "x \<in> set nested" "r = withPrefix (fwdPrefix statement) x"
        | (later) "r \<in> set later"
        by auto
      then show ?thesis
      proof cases
        case direct
        then show ?thesis using fromPublic_direct [OF fc] by blast
      next
        case nested
        then show ?thesis using n fromPublic_nested by blast
      next
        case later
        then show ?thesis using l by blast
      qed
    qed
  qed
qed

lemma listed_member_is_public:
  assumes "findAllForwardedMembers e content cur root ty V = Inr rs" and "r \<in> set rs"
  shows "\<exists>fc d0 ps. readFile e (filePath r) = Inr fc
            \<and> d0 \<in> set (directMembers ty fc (filePath r))
            \<and> \<not> isPrivate d0
            \<and> r = foldr withPrefix ps d0
            \<and> (\<forall>d' \<in> set (directMembers ty fc (filePath r)).
                  line d' = line r \<and> column d' = column r \<longrightarrow> d' = d0)"
proof -
  have "fromPublic e ty r" using assms enumeration_fromPublic(1) by blast
  then show ?thesis
    unfolding fromPublic_def position_def by (simp only: prod.inject)
qed

text \<open>The listing through one statement that forwards a file without forwards.\<close>

lemma single_forward_listing:
  assumes "parseForwardStatements contentA = [st]"
    and "resolveModule e (fwdPath st) fileA root = Some fileB"
    and "readFile e fileB = Inr contentB"
    and "parseForwardStatements contentB = []"
  shows "findAllForwardedMembers e contentA fileA root ty {}
         = Inr (map (withPrefix (fwdPrefix st))
                  (filter (\<lambda>m. \<not> isPrivate m) (directMembers ty contentB fileB)))"
proof -
  have n: "findAllForwardedMembers e contentB fileB root ty (insert fileA {}) = Inr []"
    using assms(4) by (rule findAllForwardedMembers_no_forwards)
  have "fileA \<notin> ({} :: string set)" by simp
  then have "findAllForwardedMembers e contentA fileA root ty {}
         = Inr (map (withPrefix (fwdPrefix st)) (publicMembers ty contentB fileB)
                @ map (withPrefix (fwdPrefix st)) [])"
    using assms(1,2,3) n by (rule findAllForwardedMembers_single)
  then show ?thesis by (simp add: publicMembers_def)
qed

text \<open>The definitions that the enumeration reads in a file hold the ones of each line.\<close>

lemma allMixinsFrom_member:
  assumes "d \<in> set (mixinsOfLine content fp (ln + length before) l)"
  shows "d \<in> set (allMixinsFrom content fp ln (before @ l # after))"
  using assms
proof (induction before arbitrary: ln)
  case Nil
  then show ?case by simp
next
  case (Cons b before)
  then have "d \<in> set (mixinsOfLine content fp (Suc ln + length before) l)" by simp
  then have "d \<in> set (allMixinsFrom content fp (Suc ln) (before @ l # after))" by (rule Cons.IH)
  then show ?case by simp
qed

lemma mixin_in_directMembers:
  assumes "splitLines content = before @ (indent @ ''@mixin'' @ w1 @ nm @ w2 @ c # rest) # after"
    and "\<forall>x \<in> set indent. isSpace x"
    and "w1 \<noteq> []" and "\<forall>x \<in> set w1. isSpace x"
    and "nm \<noteq> []" and "\<forall>x \<in> set nm. isName x"
    and "\<forall>x \<in> set w2. isSpace x"
    and "c = CHR ''('' \<or> c = CHR ''{''"
  shows "\<lparr>name = nm, filePath = fp, line = length before, column = length indent,
          parameters = parseMixinParameters content nm (length before), varValue = None\<rparr>
         \<in> set (directMembers MixinType content fp)"
proof -
  let ?l = "indent @ ''@mixin'' @ w1 @ nm @ w2 @ c # rest"
  let ?d = "\<lparr>name = nm, filePath = fp, line = length before, column = length indent,
             parameters = parseMixinParameters content nm (length before), varValue = None\<rparr>"
  have nc: "\<not> isCommentLine ?l"
    using indented_not_comment [OF assms(2), of "CHR ''@''" "''mixin'' @ w1 @ nm @ w2 @ c # rest"]
    by (simp add: isSpace_def)
  have at: "MIXIN_PATTERN (drop (length indent) ?l)
            = Some (nm, 6 + length w1 + length nm + length w2 + 1)"
    using MIXIN_PATTERN_header [OF assms(3-8)] by simp
  have before_it: "\<forall>i < length indent. MIXIN_PATTERN (drop i ?l) = None"
  proof (intro allI impI)
    fix i assume "i < length indent"
    then obtain x t where x: "isSpace x" "drop i ?l = x # t"
      using indented_offset [OF _ assms(2)] by blast
    have "x \<noteq> CHR ''@''" using x(1) by (auto simp: isSpace_def)
    then show "MIXIN_PATTERN (drop i ?l) = None"
      unfolding x(2) by (simp add: MIXIN_PATTERN_def startsWith_def)
  qed
  have "length indent < length ?l" by simp
  then obtain others where
      m: "matchAll MIXIN_PATTERN 0 ?l = (0 + length indent, nm) # others"
    using matchAll_first [OF _ before_it at] by blast
  have "?d \<in> set (mixinsOfLine content fp (0 + length before) ?l)"
    using nc m by (simp add: mixinsOfLine_def)
  then have "?d \<in> set (allMixinsFrom content fp 0 (before @ ?l # after))"
    by (rule allMixinsFrom_member)
  then show ?thesis
    by (simp add: directMembers_def findAllMixinDefinitionsWithParams_def assms(1))
qed

lemma allVariablesFrom_member:
  assumes "\<forall>l \<in> set before. indexOf l ''/*'' = None"
    and "indexOf l ''/*'' = None" and "indexOf l ''*/'' = None" and "\<not> isCommentLine l"
    and "d \<in> set (variablesOfLine fp (ln + length before) l)"
  shows "d \<in> set (allVariablesFrom fp ln False (before @ l # after))"
  using assms(1,5)
proof (induction before arbitrary: ln)
  case Nil
  then show ?case using assms(2,3,4) by (simp add: Let_def)
next
  case (Cons b before)
  have nb: "indexOf b ''/*'' = None" using Cons.prems(1) by simp
  have "d \<in> set (variablesOfLine fp (Suc ln + length before) l)" using Cons.prems(2) by simp
  then have ih: "d \<in> set (allVariablesFrom fp (Suc ln) False (before @ l # after))"
    using Cons.prems(1) by (intro Cons.IH) simp_all
  show ?case using nb ih by (simp add: Let_def)
qed

lemma VARIABLE_PATTERN_line:
  assumes "v \<noteq> []" and "\<forall>x \<in> set v. isName x" and "\<forall>x \<in> set w. isSpace x"
  shows "VARIABLE_PATTERN (CHR ''$'' # v @ w @ CHR '':'' # rest)
         = Some (CHR ''$'' # v @ w @ '':'', 1 + length v + length w + 1)"
proof -
  have h1: "w @ CHR '':'' # rest = [] \<or> \<not> isName (hd (w @ CHR '':'' # rest))"
    using assms(3) isName_not_space by (cases w) (auto simp: isName_def isWord_def)
  have h2: "CHR '':'' # rest = [] \<or> \<not> isSpace (hd (CHR '':'' # rest))"
    by (simp add: isSpace_def)
  note r1 = takeWhile_run [OF assms(2) h1]
  note r2 = takeWhile_run [OF assms(3) h2]
  show ?thesis
    unfolding VARIABLE_PATTERN_def list.case Let_def r1 r2
    using assms(1) by (simp add: startsWith_def)
qed

lemma variable_name_of_match:
  assumes "\<forall>x \<in> set v. isName x" and "\<forall>x \<in> set w. isSpace x"
  shows "takeWhile (\<lambda>c. \<not> isSpace c \<and> c \<noteq> CHR '':'') (CHR ''$'' # v @ w @ '':'') = CHR ''$'' # v"
proof -
  have a: "\<forall>x \<in> set (CHR ''$'' # v). \<not> isSpace x \<and> x \<noteq> CHR '':''"
  proof (intro ballI)
    fix x assume "x \<in> set (CHR ''$'' # v)"
    then consider "x = CHR ''$''" | "x \<in> set v" by auto
    then show "\<not> isSpace x \<and> x \<noteq> CHR '':''"
    proof cases
      case 1
      then show ?thesis by (simp add: isSpace_def)
    next
      case 2
      then have n: "isName x" using assms(1) by blast
      have "\<not> isSpace x" using n by (rule isName_not_space)
      moreover have "x \<noteq> CHR '':''" using n by (auto simp: isName_def isWord_def)
      ultimately show ?thesis by simp
    qed
  qed
  have b: "w @ '':'' = [] \<or> \<not> (\<not> isSpace (hd (w @ '':'')) \<and> hd (w @ '':'') \<noteq> CHR '':'')"
    using assms(2) by (cases w) auto
  have "takeWhile (\<lambda>c. \<not> isSpace c \<and> c \<noteq> CHR '':'') ((CHR ''$'' # v) @ (w @ '':'')) = CHR ''$'' # v"
    using a b by (rule takeWhile_run(1))
  then show ?thesis by simp
qed

lemma variablesOfLine_member:
  assumes "(i, full) \<in> set (matchAll VARIABLE_PATTERN 0 l)"
  shows "\<exists>d \<in> set (variablesOfLine fp ln l).
           name d = takeWhile (\<lambda>c. \<not> isSpace c \<and> c \<noteq> CHR '':'') full
           \<and> filePath d = fp \<and> line d = ln \<and> column d = i"
  unfolding variablesOfLine_def set_map
  by (rule bexI [OF _ imageI [OF assms]]) (simp add: Let_def)

lemma variable_in_directMembers:
  assumes "splitLines content = before @ (indent @ (CHR ''$'' # v) @ w @ CHR '':'' # rest) # after"
    and "\<forall>x \<in> set indent. isSpace x"
    and "v \<noteq> []" and "\<forall>x \<in> set v. isName x"
    and "\<forall>x \<in> set w. isSpace x"
    and "\<forall>l \<in> set before. indexOf l ''/*'' = None"
    and "indexOf (indent @ (CHR ''$'' # v) @ w @ CHR '':'' # rest) ''/*'' = None"
    and "indexOf (indent @ (CHR ''$'' # v) @ w @ CHR '':'' # rest) ''*/'' = None"
  shows "\<exists>d \<in> set (directMembers VariableType content fp).
           name d = CHR ''$'' # v \<and> filePath d = fp
           \<and> line d = length before \<and> column d = length indent"
proof -
  let ?l = "indent @ (CHR ''$'' # v) @ w @ CHR '':'' # rest"
  have nc: "\<not> isCommentLine ?l"
    using indented_not_comment [OF assms(2), of "CHR ''$''" "v @ w @ CHR '':'' # rest"]
    by (simp add: isSpace_def)
  have at: "VARIABLE_PATTERN (drop (length indent) ?l)
            = Some (CHR ''$'' # v @ w @ '':'', 1 + length v + length w + 1)"
    using VARIABLE_PATTERN_line [OF assms(3,4,5)] by simp
  have before_it: "\<forall>i < length indent. VARIABLE_PATTERN (drop i ?l) = None"
  proof (intro allI impI)
    fix i assume "i < length indent"
    then obtain x t where x: "isSpace x" "drop i ?l = x # t"
      using indented_offset [OF _ assms(2)] by blast
    have "x \<noteq> CHR ''$''" using x(1) by (auto simp: isSpace_def)
    then show "VARIABLE_PATTERN (drop i ?l) = None"
      unfolding x(2) by (simp add: VARIABLE_PATTERN_def Let_def)
  qed
  have "length indent < length ?l" by simp
  then obtain others where
      m: "matchAll VARIABLE_PATTERN 0 ?l = (0 + length indent, CHR ''$'' # v @ w @ '':'') # others"
    using matchAll_first [OF _ before_it at] by blast
  have nm: "takeWhile (\<lambda>c. \<not> isSpace c \<and> c \<noteq> CHR '':'') (CHR ''$'' # v @ w @ '':'') = CHR ''$'' # v"
    using assms(4,5) by (rule variable_name_of_match)
  have "(length indent, CHR ''$'' # v @ w @ '':'') \<in> set (matchAll VARIABLE_PATTERN 0 ?l)"
    using m by simp
  then obtain d where d: "d \<in> set (variablesOfLine fp (0 + length before) ?l)"
      "name d = takeWhile (\<lambda>c. \<not> isSpace c \<and> c \<noteq> CHR '':'') (CHR ''$'' # v @ w @ '':'')"
      "filePath d = fp" "line d = 0 + length before" "column d = length indent"
    using variablesOfLine_member by blast
  have "d \<in> set (allVariablesFrom fp 0 False (before @ ?l # after))"
    using assms(6,7,8) nc d(1) by (rule allVariablesFrom_member)
  then have "d \<in> set (directMembers VariableType content fp)"
    by (simp add: directMembers_def findAllVariableDefinitions_def assms(1))
  then show ?thesis using d(2-5) nm by auto
qed

text \<open>
  The lookup of a private mixin: \<open>A\<close> holds one statement, which forwards \<open>B\<close>; the reference
  names the member with the prefix of the statement; \<open>B\<close> forwards nothing and one of its
  lines is the head of the definition of the mixin, whose name begins with an underscore
  and does not occur on a line before.
\<close>

lemma private_mixin_lookup:
  assumes "readFile e (currentFilePath ctx) = Inr cc"
    and "findUseByNamespace cc (namespace ctx) = Some u"
    and "resolveModule e (usePath u) (currentFilePath ctx) (workspaceRoot ctx) = Some fileA"
    and "cursorTarget ctx = MemberTarget"
    and "readFile e fileA = Inr contentA"
    and "parseForwardStatements contentA = [st]"
    and "stripForwardPrefix st (member ctx) = Some nm"
    and "resolveModule e (fwdPath st) fileA (workspaceRoot ctx) = Some fileB"
    and "readFile e fileB = Inr contentB"
    and "\<forall>l \<in> set (splitLines contentB). indexOf l ''@forward'' = None"
    and "\<not> startsWith (member ctx) ''$''"
    and "startsWith nm ''_''"
    and "\<forall>x \<in> set nm. isName x"
    and "splitLines contentB = before @ (indent @ ''@mixin'' @ w1 @ nm @ w2 @ c # rest) # after"
    and "\<forall>l \<in> set before. indexOf l nm = None"
    and "\<forall>x \<in> set indent. isSpace x"
    and "w1 \<noteq> []"
    and "\<forall>x \<in> set w1. isSpace x"
    and "\<forall>x \<in> set w2. isSpace x"
    and "c = CHR ''('' \<or> c = CHR ''{''"
  shows "findForwardedMember e {} contentA (member ctx) fileA (workspaceRoot ctx)
           = Inr (Some \<lparr>originalName = nm, forwardedPath = fileB\<rparr>)
       \<and> (\<exists>d. findMixinDefinition contentB nm fileB = Some d
              \<and> d \<in> set (directMembers MixinType contentB fileB)
              \<and> name d = nm \<and> isPrivate d
              \<and> filePath d = fileB \<and> line d = length before \<and> column d = length indent)
       \<and> resolveDefinition e ctx
           = Inr (Some \<lparr>uri = fileB, locLine = length before, locColumn = length indent\<rparr>)
       \<and> findAllForwardedMembers e contentA fileA (workspaceRoot ctx) MixinType {}
           = Inr (map (withPrefix (fwdPrefix st))
                    (filter (\<lambda>m. \<not> isPrivate m) (directMembers MixinType contentB fileB)))"
proof -
  let ?d = "\<lparr>name = nm, filePath = fileB, line = length before, column = length indent,
             parameters = parseMixinParameters contentB nm (length before), varValue = None\<rparr>"
  have noB: "parseForwardStatements contentB = []"
    using assms(10) by (rule parseForwardStatements_none)
  have hit: "findForwardedMember e {} contentA (member ctx) fileA (workspaceRoot ctx)
             = Inr (Some \<lparr>originalName = nm, forwardedPath = fileB\<rparr>)"
    using assms(6-9) noB by (rule single_forward_hit)
  have ne: "nm \<noteq> []" using assms(12) by (auto simp: startsWith_def)
  have "findMixinFrom contentB nm fileB 0
          (before @ (indent @ ''@mixin'' @ w1 @ nm @ w2 @ c # rest) # after)
        = Some \<lparr>name = nm, filePath = fileB, line = 0 + length before, column = length indent,
                parameters = parseMixinParameters contentB nm (0 + length before),
                varValue = None\<rparr>"
    using assms(15,16,17,18) ne assms(13,19,20) by (rule findMixinFrom_found)
  then have found: "findMixinDefinition contentB nm fileB = Some ?d"
    by (simp add: findMixinDefinition_def assms(14))
  have listed: "?d \<in> set (directMembers MixinType contentB fileB)"
    using assms(14,16,17,18) ne assms(13,19,20) by (rule mixin_in_directMembers)
  have nd: "\<not> startsWith nm ''$''"
    using assms(12) by (cases nm) (auto simp: startsWith_def)
  have priv: "isPrivate ?d" using assms(12) nd by (simp add: isPrivate_def)
  have "resolveDefinition e ctx =
     Inr (map_option locationOf
            (if startsWith (member ctx) ''$'' then findVariableDefinition contentB nm fileB
             else findMixinDefinition contentB nm fileB))"
    by (rule resolveDefinition_member [OF assms(1-5) hit _ assms(9)]) (simp add: findTarget_def)
  then have loc: "resolveDefinition e ctx
           = Inr (Some \<lparr>uri = fileB, locLine = length before, locColumn = length indent\<rparr>)"
    using assms(11) found by (simp add: locationOf_def)
  have all: "findAllForwardedMembers e contentA fileA (workspaceRoot ctx) MixinType {}
           = Inr (map (withPrefix (fwdPrefix st))
                    (filter (\<lambda>m. \<not> isPrivate m) (directMembers MixinType contentB fileB)))"
    using assms(6,8,9) noB by (rule single_forward_listing)
  have "\<exists>d. findMixinDefinition contentB nm fileB = Some d
              \<and> d \<in> set (directMembers MixinType contentB fileB)
              \<and> name d = nm \<and> isPrivate d
              \<and> filePath d = fileB \<and> line d = length before \<and> column d = length indent"
    using found listed priv by simp
  then show ?thesis using hit loc all by blast
qed

text \<open>The lookup of a private variable, in the same files.\<close>

lemma private_variable_lookup:
  assumes "readFile e (currentFilePath ctx) = Inr cc"
    and "findUseByNamespace cc (namespace ctx) = Some u"
    and "resolveModule e (usePath u) (currentFilePath ctx) (workspaceRoot ctx) = Some fileA"
    and "cursorTarget ctx = MemberTarget"
    and "readFile e fileA = Inr contentA"
    and "parseForwardStatements contentA = [st]"
    and "stripForwardPrefix st (member ctx) = Some nm"
    and "resolveModule e (fwdPath st) fileA (workspaceRoot ctx) = Some fileB"
    and "readFile e fileB = Inr contentB"
    and "\<forall>l \<in> set (splitLines contentB). indexOf l ''@forward'' = None"
    and "startsWith (member ctx) ''$''"
    and "startsWith nm ''$_''"
    and "splitLines contentB = before @ (indent @ nm @ w @ CHR '':'' # rest) # after"
    and "\<forall>l \<in> set before. indexOf l nm = None"
    and "\<forall>x \<in> set indent. isSpace x"
    and "\<forall>x \<in> set w. isSpace x"
  shows "findForwardedMember e {} contentA (member ctx) fileA (workspaceRoot ctx)
           = Inr (Some \<lparr>originalName = nm, forwardedPath = fileB\<rparr>)
       \<and> (\<exists>d. findVariableDefinition contentB nm fileB = Some d
              \<and> name d = nm \<and> isPrivate d
              \<and> filePath d = fileB \<and> line d = length before \<and> column d = length indent)
       \<and> resolveDefinition e ctx
           = Inr (Some \<lparr>uri = fileB, locLine = length before, locColumn = length indent\<rparr>)
       \<and> findAllForwardedMembers e contentA fileA (workspaceRoot ctx) VariableType {}
           = Inr (map (withPrefix (fwdPrefix st))
                    (filter (\<lambda>m. \<not> isPrivate m) (directMembers VariableType contentB fileB)))
       \<and> ((\<forall>x \<in> set (drop 1 nm). isName x) \<longrightarrow>
          (\<forall>l \<in> set before. indexOf l ''/*'' = None) \<longrightarrow>
          indexOf (indent @ nm @ w @ CHR '':'' # rest) ''/*'' = None \<longrightarrow>
          indexOf (indent @ nm @ w @ CHR '':'' # rest) ''*/'' = None \<longrightarrow>
          (\<exists>d \<in> set (directMembers VariableType contentB fileB).
              name d = nm \<and> isPrivate d
              \<and> filePath d = fileB \<and> line d = length before \<and> column d = length indent))"
proof -
  let ?d = "\<lparr>name = nm, filePath = fileB, line = length before, column = length indent,
             parameters = None, varValue = None\<rparr>"
  have noB: "parseForwardStatements contentB = []"
    using assms(10) by (rule parseForwardStatements_none)
  have hit: "findForwardedMember e {} contentA (member ctx) fileA (workspaceRoot ctx)
             = Inr (Some \<lparr>originalName = nm, forwardedPath = fileB\<rparr>)"
    using assms(6-9) noB by (rule single_forward_hit)
  obtain v where nm: "nm = CHR ''$'' # v" and us: "startsWith v ''_''"
    using assms(12) by (cases nm) (auto simp: startsWith_def)
  have v: "v \<noteq> []" using us by (auto simp: startsWith_def)
  have dollar: "startsWith nm ''$''" by (simp add: nm startsWith_def)
  have "findVariableFrom nm fileB 0 (before @ (indent @ nm @ w @ CHR '':'' # rest) # after)
        = Some \<lparr>name = nm, filePath = fileB, line = 0 + length before, column = length indent,
                parameters = None, varValue = None\<rparr>"
    using assms(14,15) dollar assms(16) by (rule findVariableFrom_found)
  then have found: "findVariableDefinition contentB nm fileB = Some ?d"
    by (simp add: findVariableDefinition_def assms(13))
  have private_name: "isPrivate d" if "name d = nm" for d
    using that us by (simp add: isPrivate_def nm startsWith_def)
  have priv: "isPrivate ?d" by (rule private_name) simp
  have "resolveDefinition e ctx =
     Inr (map_option locationOf
            (if startsWith (member ctx) ''$'' then findVariableDefinition contentB nm fileB
             else findMixinDefinition contentB nm fileB))"
    by (rule resolveDefinition_member [OF assms(1-5) hit _ assms(9)]) (simp add: findTarget_def)
  then have loc: "resolveDefinition e ctx
           = Inr (Some \<lparr>uri = fileB, locLine = length before, locColumn = length indent\<rparr>)"
    using assms(11) found by (simp add: locationOf_def)
  have all: "findAllForwardedMembers e contentA fileA (workspaceRoot ctx) VariableType {}
           = Inr (map (withPrefix (fwdPrefix st))
                    (filter (\<lambda>m. \<not> isPrivate m) (directMembers VariableType contentB fileB)))"
    using assms(6,8,9) noB by (rule single_forward_listing)
  have read: "\<exists>d \<in> set (directMembers VariableType contentB fileB).
              name d = nm \<and> isPrivate d
              \<and> filePath d = fileB \<and> line d = length before \<and> column d = length indent"
    if n: "\<forall>x \<in> set (drop 1 nm). isName x"
      and b: "\<forall>l \<in> set before. indexOf l ''/*'' = None"
      and o: "indexOf (indent @ nm @ w @ CHR '':'' # rest) ''/*'' = None"
      and c: "indexOf (indent @ nm @ w @ CHR '':'' # rest) ''*/'' = None"
  proof -
    have n': "\<forall>x \<in> set v. isName x" using n by (simp add: nm)
    have "\<exists>d \<in> set (directMembers VariableType contentB fileB).
           name d = CHR ''$'' # v \<and> filePath d = fileB
           \<and> line d = length before \<and> column d = length indent"
      using assms(13) [unfolded nm] assms(15) v n' assms(16) b o [unfolded nm] c [unfolded nm]
      by (rule variable_in_directMembers)
    then show ?thesis using private_name by (auto simp: nm)
  qed
  have "\<exists>d. findVariableDefinition contentB nm fileB = Some d
              \<and> name d = nm \<and> isPrivate d
              \<and> filePath d = fileB \<and> line d = length before \<and> column d = length indent"
    using found priv by simp
  then show ?thesis using hit loc all read by blast
qed

text \<open>
  C5. Whatever the files are, every member that \<open>findAllForwardedMembers\<close> returns is the one
  definition at its file, line and column, renamed by the prefixes of the statements on the
  way, and the name of that definition, without \<open>$\<close>, does not begin with an underscore: no
  private definition is listed, under any prefix. The search for one member has no such
  filter. When a line of \<open>B\<close> is the head of the definition of a mixin whose name begins with
  an underscore, or assigns a variable whose name begins with \<open>$_\<close>, and the name does not
  occur on a line before, the reference that names it exactly (with the prefix of the
  statement) through the file \<open>A\<close> that forwards \<open>B\<close> is resolved: \<open>findForwardedMember\<close> returns
  the name and \<open>B\<close>, the scan of \<open>B\<close> finds the private definition, and the location
  returned is its line and column in \<open>B\<close>. In the same files the listing through \<open>A\<close> is the
  list of the definitions of \<open>B\<close> that are not private, renamed; the private definition is
  among the definitions of \<open>B\<close> that the listing reads (for the variable: when its line and
  the lines before are outside block comments), and is left out.
\<close>

theorem private_members_hidden_but_reachable:
  "(\<forall>e content cur root ty V rs r.
      findAllForwardedMembers e content cur root ty V = Inr rs \<longrightarrow> r \<in> set rs \<longrightarrow>
      (\<exists>fc d0 ps. readFile e (filePath r) = Inr fc
          \<and> d0 \<in> set (directMembers ty fc (filePath r))
          \<and> \<not> isPrivate d0
          \<and> r = foldr withPrefix ps d0
          \<and> (\<forall>d' \<in> set (directMembers ty fc (filePath r)).
                line d' = line r \<and> column d' = column r \<longrightarrow> d' = d0)))
   \<and> (readFile fs (currentFilePath ctx) = Inr cc \<longrightarrow>
      findUseByNamespace cc (namespace ctx) = Some u \<longrightarrow>
      resolveModule fs (usePath u) (currentFilePath ctx) (workspaceRoot ctx) = Some fileA \<longrightarrow>
      cursorTarget ctx = MemberTarget \<longrightarrow>
      readFile fs fileA = Inr contentA \<longrightarrow>
      parseForwardStatements contentA = [st] \<longrightarrow>
      stripForwardPrefix st (member ctx) = Some nm \<longrightarrow>
      resolveModule fs (fwdPath st) fileA (workspaceRoot ctx) = Some fileB \<longrightarrow>
      readFile fs fileB = Inr contentB \<longrightarrow>
      (\<forall>l \<in> set (splitLines contentB). indexOf l ''@forward'' = None) \<longrightarrow>
      \<not> startsWith (member ctx) ''$'' \<longrightarrow>
      startsWith nm ''_'' \<longrightarrow>
      (\<forall>x \<in> set nm. isName x) \<longrightarrow>
      splitLines contentB = before @ (indent @ ''@mixin'' @ w1 @ nm @ w2 @ c # rest) # after \<longrightarrow>
      (\<forall>l \<in> set before. indexOf l nm = None) \<longrightarrow>
      (\<forall>x \<in> set indent. isSpace x) \<longrightarrow>
      w1 \<noteq> [] \<longrightarrow>
      (\<forall>x \<in> set w1. isSpace x) \<longrightarrow>
      (\<forall>x \<in> set w2. isSpace x) \<longrightarrow>
      (c = CHR ''('' \<or> c = CHR ''{'') \<longrightarrow>
        findForwardedMember fs {} contentA (member ctx) fileA (workspaceRoot ctx)
           = Inr (Some \<lparr>originalName = nm, forwardedPath = fileB\<rparr>)
        \<and> (\<exists>d. findMixinDefinition contentB nm fileB = Some d
              \<and> d \<in> set (directMembers MixinType contentB fileB)
              \<and> name d = nm \<and> isPrivate d
              \<and> filePath d = fileB \<and> line d = length before \<and> column d = length indent)
        \<and> resolveDefinition fs ctx
           = Inr (Some \<lparr>uri = fileB, locLine = length before, locColumn = length indent\<rparr>)
        \<and> findAllForwardedMembers fs contentA fileA (workspaceRoot ctx) MixinType {}
           = Inr (map (withPrefix (fwdPrefix st))
                    (filter (\<lambda>m. \<not> isPrivate m) (directMembers MixinType contentB fileB))))
   \<and> (readFile fs (currentFilePath ctx) = Inr cc \<longrightarrow>
      findUseByNamespace cc (namespace ctx) = Some u \<longrightarrow>
      resolveModule fs (usePath u) (currentFilePath ctx) (workspaceRoot ctx) = Some fileA \<longrightarrow>
      cursorTarget ctx = MemberTarget \<longrightarrow>
      readFile fs fileA = Inr contentA \<longrightarrow>
      parseForwardStatements contentA = [st] \<longrightarrow>
      stripForwardPrefix st (member ctx) = Some nm \<longrightarrow>
      resolveModule fs (fwdPath st) fileA (workspaceRoot ctx) = Some fileB \<longrightarrow>
      readFile fs fileB = Inr contentB \<longrightarrow>
      (\<forall>l \<in> set (splitLines contentB). indexOf l ''@forward'' = None) \<longrightarrow>
      startsWith (member ctx) ''$'' \<longrightarrow>
      startsWith nm ''$_'' \<longrightarrow>
      splitLines contentB = before @ (indent @ nm @ w @ CHR '':'' # rest) # after \<longrightarrow>
      (\<forall>l \<in> set before. indexOf l nm = None) \<longrightarrow>
      (\<forall>x \<in> set indent. isSpace x) \<longrightarrow>
      (\<forall>x \<in> set w. isSpace x) \<longrightarrow>
        findForwardedMember fs {} contentA (member ctx) fileA (workspaceRoot ctx)
           = Inr (Some \<lparr>originalName = nm, forwardedPath = fileB\<rparr>)
        \<and> (\<exists>d. findVariableDefinition contentB nm fileB = Some d
              \<and> name d = nm \<and> isPrivate d
              \<and> filePath d = fileB \<and> line d = length before \<and> column d = length indent)
        \<and> resolveDefinition fs ctx
           = Inr (Some \<lparr>uri = fileB, locLine = length before, locColumn = length indent\<rparr>)
        \<and> findAllForwardedMembers fs contentA fileA (workspaceRoot ctx) VariableType {}
           = Inr (map (withPrefix (fwdPrefix st))
                    (filter (\<lambda>m. \<not> isPrivate m) (directMembers VariableType contentB fileB)))
        \<and> ((\<forall>x \<in> set (drop 1 nm). isName x) \<longrightarrow>
           (\<forall>l \<in> set before. indexOf l ''/*'' = None) \<longrightarrow>
           indexOf (indent @ nm @ w @ CHR '':'' # rest) ''/*'' = None \<longrightarrow>
           indexOf (indent @ nm @ w @ CHR '':'' # rest) ''*/'' = None \<longrightarrow>
           (\<exists>d \<in> set (directMembers VariableType contentB fileB).
               name d = nm \<and> isPrivate d
               \<and> filePath d = fileB \<and> line d = length before \<and> column d = length indent)))"
proof (intro conjI)
  show "\<forall>e content cur root ty V rs r.
      findAllForwardedMembers e content cur root ty V = Inr rs \<longrightarrow> r \<in> set rs \<longrightarrow>
      (\<exists>fc d0 ps. readFile e (filePath r) = Inr fc
          \<and> d0 \<in> set (directMembers ty fc (filePath r))
          \<and> \<not> isPrivate d0
          \<and> r = foldr withPrefix ps d0
          \<and> (\<forall>d' \<in> set (directMembers ty fc (filePath r)).
                line d' = line r \<and> column d' = column r \<longrightarrow> d' = d0))"
    by (intro allI impI) (rule listed_member_is_public)
next
  show "readFile fs (currentFilePath ctx) = Inr cc \<longrightarrow>
      findUseByNamespace cc (namespace ctx) = Some u \<longrightarrow>
      resolveModule fs (usePath u) (currentFilePath ctx) (workspaceRoot ctx) = Some fileA \<longrightarrow>
      cursorTarget ctx = MemberTarget \<longrightarrow>
      readFile fs fileA = Inr contentA \<longrightarrow>
      parseForwardStatements contentA = [st] \<longrightarrow>
      stripForwardPrefix st (member ctx) = Some nm \<longrightarrow>
      resolveModule fs (fwdPath st) fileA (workspaceRoot ctx) = Some fileB \<longrightarrow>
      readFile fs fileB = Inr contentB \<longrightarrow>
      (\<forall>l \<in> set (splitLines contentB). indexOf l ''@forward'' = None) \<longrightarrow>
      \<not> startsWith (member ctx) ''$'' \<longrightarrow>
      startsWith nm ''_'' \<longrightarrow>
      (\<forall>x \<in> set nm. isName x) \<longrightarrow>
      splitLines contentB = before @ (indent @ ''@mixin'' @ w1 @ nm @ w2 @ c # rest) # after \<longrightarrow>
      (\<forall>l \<in> set before. indexOf l nm = None) \<longrightarrow>
      (\<forall>x \<in> set indent. isSpace x) \<longrightarrow>
      w1 \<noteq> [] \<longrightarrow>
      (\<forall>x \<in> set w1. isSpace x) \<longrightarrow>
      (\<forall>x \<in> set w2. isSpace x) \<longrightarrow>
      (c = CHR ''('' \<or> c = CHR ''{'') \<longrightarrow>
        findForwardedMember fs {} contentA (member ctx) fileA (workspaceRoot ctx)
           = Inr (Some \<lparr>originalName = nm, forwardedPath = fileB\<rparr>)
        \<and> (\<exists>d. findMixinDefinition contentB nm fileB = Some d
              \<and> d \<in> set (directMembers MixinType contentB fileB)
              \<and> name d = nm \<and> isPrivate d
              \<and> filePath d = fileB \<and> line d = length before \<and> column d = length indent)
        \<and> resolveDefinition fs ctx
           = Inr (Some \<lparr>uri = fileB, locLine = length before, locColumn = length indent\<rparr>)
        \<and> findAllForwardedMembers fs contentA fileA (workspaceRoot ctx) MixinType {}
           = Inr (map (withPrefix (fwdPrefix st))
                    (filter (\<lambda>m. \<not> isPrivate m) (directMembers MixinType contentB fileB)))"
    by (intro impI) (rule private_mixin_lookup)
next
  show "readFile fs (currentFilePath ctx) = Inr cc \<longrightarrow>
      findUseByNamespace cc (namespace ctx) = Some u \<longrightarrow>
      resolveModule fs (usePath u) (currentFilePath ctx) (workspaceRoot ctx) = Some fileA \<longrightarrow>
      cursorTarget ctx = MemberTarget \<longrightarrow>
      readFile fs fileA = Inr contentA \<longrightarrow>
      parseForwardStatements contentA = [st] \<longrightarrow>
      stripForwardPrefix st (member ctx) = Some nm \<longrightarrow>
      resolveModule fs (fwdPath st) fileA (workspaceRoot ctx) = Some fileB \<longrightarrow>
      readFile fs fileB = Inr contentB \<longrightarrow>
      (\<forall>l \<in> set (splitLines contentB). indexOf l ''@forward'' = None) \<longrightarrow>
      startsWith (member ctx) ''$'' \<longrightarrow>
      startsWith nm ''$_'' \<longrightarrow>
      splitLines contentB = before @ (indent @ nm @ w @ CHR '':'' # rest) # after \<longrightarrow>
      (\<forall>l \<in> set before. indexOf l nm = None) \<longrightarrow>
      (\<forall>x \<in> set indent. isSpace x) \<longrightarrow>
      (\<forall>x \<in> set w. isSpace x) \<longrightarrow>
        findForwardedMember fs {} contentA (member ctx) fileA (workspaceRoot ctx)
           = Inr (Some \<lparr>originalName = nm, forwardedPath = fileB\<rparr>)
        \<and> (\<exists>d. findVariableDefinition contentB nm fileB = Some d
              \<and> name d = nm \<and> isPrivate d
              \<and> filePath d = fileB \<and> line d = length before \<and> column d = length indent)
        \<and> resolveDefinition fs ctx
           = Inr (Some \<lparr>uri = fileB, locLine = length before, locColumn = length indent\<rparr>)
        \<and> findAllForwardedMembers fs contentA fileA (workspaceRoot ctx) VariableType {}
           = Inr (map (withPrefix (fwdPrefix st))
                    (filter (\<lambda>m. \<not> isPrivate m) (directMembers VariableType contentB fileB)))
        \<and> ((\<forall>x \<in> set (drop 1 nm). isName x) \<longrightarrow>
           (\<forall>l \<in> set before. indexOf l ''/*'' = None) \<longrightarrow>
           indexOf (indent @ nm @ w @ CHR '':'' # rest) ''/*'' = None \<longrightarrow>
           indexOf (indent @ nm @ w @ CHR '':'' # rest) ''*/'' = None \<longrightarrow>
           (\<exists>d \<in> set (directMembers VariableType contentB fileB).
               name d = nm \<and> isPrivate d
               \<and> filePath d = fileB \<and> line d = length before \<and> column d = length indent))"
    by (intro impI) (rule private_variable_lookup)
qed

text \<open>
  \<open>b.scss\<close> defines a private and a public mixin and a private and a public variable, the
  private ones indented, and \<open>a.scss\<close> forwards it as \<open>p-*\<close>: the listings hold the public ones
  only, and the lookups of \<open>p-_internal\<close> and \<open>$p-_hidden\<close> return the places of the private
  ones.
\<close>

definition privateContent :: string where
  "privateContent = ''  @mixin _internal { }'' @ [CHR 0x0A] @ '' $_hidden: 1;''
                     @ [CHR 0x0A] @ ''@mixin shown { }'' @ [CHR 0x0A] @ ''$seen: 2;''"

definition privateEnv :: env where
  "privateEnv =
     \<lparr>nodes = [(''/w/main.scss'', File ''@use \"./a\" as m;''),
               (''/w/a.scss'', File ''@forward \"./b\" as p-*;''),
               (''/w/b.scss'', File privateContent)],
      cwd = ''/w'',
      jsonParse = (\<lambda>content. None)\<rparr>"

definition privateContext :: ResolutionContext where
  "privateContext =
     \<lparr>token = ''m.p-_internal'', namespace = ''m'', member = ''p-_internal'',
      currentFilePath = ''/w/main.scss'', workspaceRoot = ''/w'', cursorTarget = MemberTarget\<rparr>"

definition privateVariableContext :: ResolutionContext where
  "privateVariableContext =
     \<lparr>token = ''m.$p-_hidden'', namespace = ''m'', member = ''$p-_hidden'',
      currentFilePath = ''/w/main.scss'', workspaceRoot = ''/w'', cursorTarget = MemberTarget\<rparr>"

theorem private_members_hidden_but_reachable_witness:
  "resolveDefinition privateEnv privateContext
     = Inr (Some \<lparr>uri = ''/w/b.scss'', locLine = 0, locColumn = 2\<rparr>)
   \<and> resolveDefinition privateEnv privateVariableContext
     = Inr (Some \<lparr>uri = ''/w/b.scss'', locLine = 1, locColumn = 1\<rparr>)
   \<and> findAllForwardedMembers privateEnv ''@forward \"./b\" as p-*;'' ''/w/a.scss'' ''/w'' MixinType {}
     = Inr [\<lparr>name = ''p-shown'', filePath = ''/w/b.scss'', line = 2, column = 0,
             parameters = Some [], varValue = None\<rparr>]
   \<and> findAllForwardedMembers privateEnv ''@forward \"./b\" as p-*;'' ''/w/a.scss'' ''/w'' VariableType {}
     = Inr [\<lparr>name = ''$p-seen'', filePath = ''/w/b.scss'', line = 3, column = 0,
             parameters = None, varValue = Some ''2''\<rparr>]
   \<and> (\<exists>d \<in> set (directMembers MixinType privateContent ''/w/b.scss'').
         name d = ''_internal'' \<and> isPrivate d \<and> line d = 0 \<and> column d = 2)
   \<and> (\<exists>d \<in> set (directMembers VariableType privateContent ''/w/b.scss'').
         name d = ''$_hidden'' \<and> isPrivate d \<and> line d = 1 \<and> column d = 1)
   \<and> (\<exists>d0 ps. d0 \<in> set (directMembers MixinType privateContent ''/w/b.scss'')
         \<and> \<not> isPrivate d0
         \<and> \<lparr>name = ''p-shown'', filePath = ''/w/b.scss'', line = 2, column = 0,
             parameters = Some [], varValue = None\<rparr> = foldr withPrefix ps d0)"
proof -
  let ?st = "\<lparr>fwdPath = ''./b'', fwdPrefix = Some ''p-'', fwdLine = 0\<rparr>"
  let ?u = "\<lparr>usePath = ''./a'', useNamespace = ''m'', useLine = 0\<rparr>"
  let ?shown = "\<lparr>name = ''p-shown'', filePath = ''/w/b.scss'', line = 2, column = 0,
             parameters = Some [], varValue = None\<rparr>"
  have h1: "readFile privateEnv (currentFilePath privateContext) = Inr ''@use \"./a\" as m;''"
    unfolding privateEnv_def privateContext_def by code_simp
  have h2: "findUseByNamespace ''@use \"./a\" as m;'' (namespace privateContext) = Some ?u"
    unfolding privateContext_def by code_simp
  have h3: "resolveModule privateEnv (usePath ?u)
              (currentFilePath privateContext) (workspaceRoot privateContext) = Some ''/w/a.scss''"
    unfolding privateEnv_def privateContext_def privateContent_def by code_simp
  have h4: "cursorTarget privateContext = MemberTarget"
    unfolding privateContext_def by simp
  have h5: "readFile privateEnv ''/w/a.scss'' = Inr ''@forward \"./b\" as p-*;''"
    unfolding privateEnv_def by code_simp
  have h6: "parseForwardStatements ''@forward \"./b\" as p-*;'' = [?st]" by code_simp
  have h7: "stripForwardPrefix ?st (member privateContext) = Some ''_internal''"
    unfolding privateContext_def by code_simp
  have h8: "resolveModule privateEnv (fwdPath ?st) ''/w/a.scss'' (workspaceRoot privateContext)
            = Some ''/w/b.scss''"
    unfolding privateEnv_def privateContext_def privateContent_def by code_simp
  have h9: "readFile privateEnv ''/w/b.scss'' = Inr privateContent"
    unfolding privateEnv_def by code_simp
  have h10: "\<forall>l \<in> set (splitLines privateContent). indexOf l ''@forward'' = None"
    unfolding privateContent_def by code_simp
  have h11: "\<not> startsWith (member privateContext) ''$''"
    unfolding privateContext_def by code_simp
  have h12: "startsWith ''_internal'' ''_''" by code_simp
  have h13: "\<forall>x \<in> set ''_internal''. isName x" by code_simp
  have h14: "splitLines privateContent
             = [] @ (''  '' @ ''@mixin'' @ '' '' @ ''_internal'' @ '' '' @ CHR ''{'' # '' }'')
                    # ['' $_hidden: 1;'', ''@mixin shown { }'', ''$seen: 2;'']"
    unfolding privateContent_def by code_simp
  have h15: "\<forall>l \<in> set ([] :: string list). indexOf l ''_internal'' = None" by simp
  have h16: "\<forall>x \<in> set ''  ''. isSpace x" by code_simp
  have h17: "'' '' \<noteq> []" by simp
  have h18: "\<forall>x \<in> set '' ''. isSpace x" by code_simp
  have h20: "CHR ''{'' = CHR ''('' \<or> CHR ''{'' = CHR ''{''" by simp
  note mixin = private_members_hidden_but_reachable
            [THEN conjunct2, THEN conjunct1,
             THEN mp, THEN mp, THEN mp, THEN mp, THEN mp, THEN mp, THEN mp, THEN mp, THEN mp, THEN mp,
             THEN mp, THEN mp, THEN mp, THEN mp, THEN mp, THEN mp, THEN mp, THEN mp, THEN mp, THEN mp,
             OF h1 h2 h3 h4 h5 h6 h7 h8 h9 h10 h11 h12 h13 h14 h15 h16 h17 h18 h18 h20]
  have a: "resolveDefinition privateEnv privateContext
     = Inr (Some \<lparr>uri = ''/w/b.scss'', locLine = 0, locColumn = 2\<rparr>)"
    using mixin by simp
  have a': "\<exists>d \<in> set (directMembers MixinType privateContent ''/w/b.scss'').
         name d = ''_internal'' \<and> isPrivate d \<and> line d = 0 \<and> column d = 2"
    using mixin by auto
  have v1: "readFile privateEnv (currentFilePath privateVariableContext) = Inr ''@use \"./a\" as m;''"
    unfolding privateEnv_def privateVariableContext_def by code_simp
  have v2: "findUseByNamespace ''@use \"./a\" as m;'' (namespace privateVariableContext) = Some ?u"
    unfolding privateVariableContext_def by code_simp
  have v3: "resolveModule privateEnv (usePath ?u)
              (currentFilePath privateVariableContext) (workspaceRoot privateVariableContext)
            = Some ''/w/a.scss''"
    unfolding privateEnv_def privateVariableContext_def privateContent_def by code_simp
  have v4: "cursorTarget privateVariableContext = MemberTarget"
    unfolding privateVariableContext_def by simp
  have v7: "stripForwardPrefix ?st (member privateVariableContext) = Some ''$_hidden''"
    unfolding privateVariableContext_def by code_simp
  have v8: "resolveModule privateEnv (fwdPath ?st) ''/w/a.scss'' (workspaceRoot privateVariableContext)
            = Some ''/w/b.scss''"
    unfolding privateEnv_def privateVariableContext_def privateContent_def by code_simp
  have v11: "startsWith (member privateVariableContext) ''$''"
    unfolding privateVariableContext_def by code_simp
  have v12: "startsWith ''$_hidden'' ''$_''" by code_simp
  have v13: "splitLines privateContent
             = [''  @mixin _internal { }''] @ ('' '' @ ''$_hidden'' @ [] @ CHR '':'' # '' 1;'')
                    # [''@mixin shown { }'', ''$seen: 2;'']"
    unfolding privateContent_def by code_simp
  have v14: "\<forall>l \<in> set [''  @mixin _internal { }'']. indexOf l ''$_hidden'' = None" by code_simp
  have v16: "\<forall>x \<in> set ([] :: string). isSpace x" by simp
  note variable = private_members_hidden_but_reachable
            [THEN conjunct2, THEN conjunct2,
             THEN mp, THEN mp, THEN mp, THEN mp, THEN mp, THEN mp, THEN mp, THEN mp,
             THEN mp, THEN mp, THEN mp, THEN mp, THEN mp, THEN mp, THEN mp, THEN mp,
             OF v1 v2 v3 v4 h5 h6 v7 v8 h9 h10 v11 v12 v13 v14 h18 v16]
  have b: "resolveDefinition privateEnv privateVariableContext
     = Inr (Some \<lparr>uri = ''/w/b.scss'', locLine = 1, locColumn = 1\<rparr>)"
    using variable by simp
  have w1: "\<forall>x \<in> set (drop 1 ''$_hidden''). isName x" by code_simp
  have w2: "\<forall>l \<in> set [''  @mixin _internal { }'']. indexOf l ''/*'' = None" by code_simp
  have w3: "indexOf ('' '' @ ''$_hidden'' @ [] @ CHR '':'' # '' 1;'') ''/*'' = None" by code_simp
  have w4: "indexOf ('' '' @ ''$_hidden'' @ [] @ CHR '':'' # '' 1;'') ''*/'' = None" by code_simp
  have b': "\<exists>d \<in> set (directMembers VariableType privateContent ''/w/b.scss'').
         name d = ''$_hidden'' \<and> isPrivate d \<and> line d = 1 \<and> column d = 1"
    using variable [THEN conjunct2, THEN conjunct2, THEN conjunct2, THEN conjunct2,
                    THEN mp, THEN mp, THEN mp, THEN mp, OF w1 w2 w3 w4]
    by auto
  have c: "findAllForwardedMembers privateEnv ''@forward \"./b\" as p-*;'' ''/w/a.scss'' ''/w'' MixinType {}
     = Inr [?shown]"
    unfolding privateEnv_def privateContent_def by code_simp
  have d: "findAllForwardedMembers privateEnv ''@forward \"./b\" as p-*;'' ''/w/a.scss'' ''/w'' VariableType {}
     = Inr [\<lparr>name = ''$p-seen'', filePath = ''/w/b.scss'', line = 3, column = 0,
             parameters = None, varValue = Some ''2''\<rparr>]"
    unfolding privateEnv_def privateContent_def by code_simp
  have mem: "?shown \<in> set [?shown]" by simp
  have "\<exists>fc d0 ps. readFile privateEnv (filePath ?shown) = Inr fc
          \<and> d0 \<in> set (directMembers MixinType fc (filePath ?shown))
          \<and> \<not> isPrivate d0
          \<and> ?shown = foldr withPrefix ps d0
          \<and> (\<forall>d' \<in> set (directMembers MixinType fc (filePath ?shown)).
                line d' = line ?shown \<and> column d' = column ?shown \<longrightarrow> d' = d0)"
    using private_members_hidden_but_reachable
            [THEN conjunct1, THEN spec, THEN spec, THEN spec, THEN spec, THEN spec, THEN spec,
             THEN spec, THEN spec, THEN mp, THEN mp, OF c mem] .
  then have e: "\<exists>d0 ps. d0 \<in> set (directMembers MixinType privateContent ''/w/b.scss'')
         \<and> \<not> isPrivate d0 \<and> ?shown = foldr withPrefix ps d0"
    using h9 by auto
  show ?thesis using a b c d a' b' e by simp
qed

section \<open>Cycles and the depth of the recursion\<close>

text \<open>
  The depth of the recursion of \<open>findForwardedMember\<close>: the number of calls that are open
  inside a call when the recursion is deepest. The function follows the equations of
  \<open>findForwardedMember\<close> and counts instead of returning the member.
\<close>

function forwardDepth :: "env \<Rightarrow> string set \<Rightarrow> string \<Rightarrow> string \<Rightarrow> string \<Rightarrow> string \<Rightarrow> nat"
  and forwardLoopDepth ::
    "env \<Rightarrow> string set \<Rightarrow> string \<Rightarrow> string \<Rightarrow> string \<Rightarrow> ForwardStatement list \<Rightarrow> nat"
where
  "forwardDepth e visitedFiles content memberName curPath wsRoot =
     (if curPath \<in> visitedFiles then 0
      else forwardLoopDepth e (insert curPath visitedFiles) memberName curPath
             wsRoot (parseForwardStatements content))"
| "forwardLoopDepth e visitedFiles memberName curPath wsRoot [] = 0"
| "forwardLoopDepth e visitedFiles memberName curPath wsRoot (statement # statements) =
     (case stripForwardPrefix statement memberName of
        None \<Rightarrow> forwardLoopDepth e visitedFiles memberName curPath wsRoot statements
      | Some orig \<Rightarrow>
          (case resolveModule e (fwdPath statement) curPath wsRoot of
             None \<Rightarrow> forwardLoopDepth e visitedFiles memberName curPath wsRoot statements
           | Some resolvedPath \<Rightarrow>
               (case readFile e resolvedPath of
                  Inl err \<Rightarrow> 0
                | Inr forwardedContent \<Rightarrow>
                    Suc (forwardDepth e visitedFiles forwardedContent orig resolvedPath
                           wsRoot))))"
  by pat_completeness auto
termination
proof (relation "measures
    [\<lambda>x. case x of
            Inl (e, V, content, memberName, cur, root) \<Rightarrow>
              (if cur \<in> V then 0 else Suc (unvisited e (insert cur V)))
          | Inr (e, V, memberName, cur, root, statements) \<Rightarrow> Suc (unvisited e V),
     \<lambda>x. case x of Inl a \<Rightarrow> 1 | Inr b \<Rightarrow> 0,
     \<lambda>x. case x of
            Inl a \<Rightarrow> 0
          | Inr (e, V, memberName, cur, root, statements) \<Rightarrow> length statements]", goal_cases)
  case 1
  then show ?case by simp
next
  case 2
  then show ?case by simp
next
  case 3
  then show ?case by simp
next
  case 4
  then show ?case by simp
next
  case (5 e V memberName cur root statement statements orig resolvedPath forwardedContent)
  have ex: "fileExists e resolvedPath" using 5(2) by (rule resolveModule_exists)
  show ?case
  proof (cases "resolvedPath \<in> V")
    case True
    then show ?thesis by simp
  next
    case False
    then show ?thesis using unvisited_less [OF ex False] by simp
  qed
qed

declare forwardDepth.simps [simp del]

text \<open>The same count for \<open>findAllForwardedMembers\<close>, which follows every statement.\<close>

function allDepth :: "env \<Rightarrow> string \<Rightarrow> string \<Rightarrow> string \<Rightarrow> MemberType \<Rightarrow> string set \<Rightarrow> nat"
  and allLoopDepth ::
    "env \<Rightarrow> string \<Rightarrow> string \<Rightarrow> MemberType \<Rightarrow> string set \<Rightarrow> ForwardStatement list \<Rightarrow> nat"
where
  "allDepth e content curPath wsRoot ty visitedFiles =
     (if curPath \<in> visitedFiles then 0
      else allLoopDepth e curPath wsRoot ty (insert curPath visitedFiles)
             (parseForwardStatements content))"
| "allLoopDepth e curPath wsRoot ty visitedFiles [] = 0"
| "allLoopDepth e curPath wsRoot ty visitedFiles (statement # statements) =
     (case resolveModule e (fwdPath statement) curPath wsRoot of
        None \<Rightarrow> allLoopDepth e curPath wsRoot ty visitedFiles statements
      | Some resolvedPath \<Rightarrow>
          (case readFile e resolvedPath of
             Inl err \<Rightarrow> 0
           | Inr forwardedContent \<Rightarrow>
               (case findAllForwardedMembers e forwardedContent resolvedPath wsRoot ty
                       visitedFiles of
                  Inl err \<Rightarrow>
                    Suc (allDepth e forwardedContent resolvedPath wsRoot ty visitedFiles)
                | Inr nestedMembers \<Rightarrow>
                    max (Suc (allDepth e forwardedContent resolvedPath wsRoot ty visitedFiles))
                        (allLoopDepth e curPath wsRoot ty visitedFiles statements))))"
  by pat_completeness auto
termination
proof (relation "measures
    [\<lambda>x. case x of
            Inl (e, content, cur, root, ty, V) \<Rightarrow>
              (if cur \<in> V then 0 else Suc (unvisited e (insert cur V)))
          | Inr (e, cur, root, ty, V, statements) \<Rightarrow> Suc (unvisited e V),
     \<lambda>x. case x of Inl a \<Rightarrow> 1 | Inr b \<Rightarrow> 0,
     \<lambda>x. case x of
            Inl a \<Rightarrow> 0
          | Inr (e, cur, root, ty, V, statements) \<Rightarrow> length statements]", goal_cases)
  case 1
  then show ?case by simp
next
  case 2
  then show ?case by simp
next
  case 3
  then show ?case by simp
next
  case (4 e cur root ty V statement statements resolvedPath forwardedContent)
  have ex: "fileExists e resolvedPath" using 4(1) by (rule resolveModule_exists)
  show ?case
  proof (cases "resolvedPath \<in> V")
    case True
    then show ?thesis by simp
  next
    case False
    then show ?thesis using unvisited_less [OF ex False] by simp
  qed
next
  case (5 e cur root ty V statement statements resolvedPath forwardedContent)
  have ex: "fileExists e resolvedPath" using 5(1) by (rule resolveModule_exists)
  show ?case
  proof (cases "resolvedPath \<in> V")
    case True
    then show ?thesis by simp
  next
    case False
    then show ?thesis using unvisited_less [OF ex False] by simp
  qed
next
  case 6
  then show ?case by simp
qed

declare allDepth.simps [simp del]

text \<open>
  A call on a file that is visited returns at once. A call on another file adds it to the
  set, and the file exists: so fewer files are left for the calls inside.
\<close>

lemma nested_depth_step:
  assumes "fileExists e rp"
    and "d \<le> (if rp \<in> V then 0 else Suc (unvisited e (insert rp V)))"
  shows "Suc d \<le> Suc (unvisited e V)"
proof (cases "rp \<in> V")
  case True
  then show ?thesis using assms(2) by simp
next
  case False
  then show ?thesis using assms(2) unvisited_less [OF assms(1) False] by simp
qed

lemma forwardDepth_bound:
  "forwardDepth e V content m cur root \<le> (if cur \<in> V then 0 else Suc (unvisited e (insert cur V)))"
  "forwardLoopDepth e V m cur root statements \<le> Suc (unvisited e V)"
proof (induction e V content m cur root and e V m cur root statements
        rule: forwardDepth_forwardLoopDepth.induct)
  case (1 e visitedFiles content memberName curPath wsRoot)
  then show ?case by (simp add: forwardDepth.simps)
next
  case (2 e visitedFiles memberName curPath wsRoot)
  then show ?case by simp
next
  case (3 e visitedFiles memberName curPath wsRoot statement statements)
  show ?case
  proof (cases "stripForwardPrefix statement memberName")
    case None
    then show ?thesis using 3(1) by simp
  next
    case (Some orig)
    show ?thesis
    proof (cases "resolveModule e (fwdPath statement) curPath wsRoot")
      case None
      then show ?thesis using 3(2) Some by simp
    next
      case rp: (Some resolvedPath)
      have ex: "fileExists e resolvedPath" using rp by (rule resolveModule_exists)
      show ?thesis
      proof (cases "readFile e resolvedPath")
        case (Inl err)
        then show ?thesis using Some rp by simp
      next
        case (Inr fc)
        have "Suc (forwardDepth e visitedFiles fc orig resolvedPath wsRoot)
              \<le> Suc (unvisited e visitedFiles)"
          using ex 3(3) [OF Some rp Inr] by (rule nested_depth_step)
        then show ?thesis using Some rp Inr by simp
      qed
    qed
  qed
qed

lemma allDepth_bound:
  "allDepth e content cur root ty V \<le> (if cur \<in> V then 0 else Suc (unvisited e (insert cur V)))"
  "allLoopDepth e cur root ty V statements \<le> Suc (unvisited e V)"
proof (induction e content cur root ty V and e cur root ty V statements
        rule: allDepth_allLoopDepth.induct)
  case (1 e content curPath wsRoot ty visitedFiles)
  then show ?case by (simp add: allDepth.simps)
next
  case (2 e curPath wsRoot ty visitedFiles)
  then show ?case by simp
next
  case (3 e curPath wsRoot ty visitedFiles statement statements)
  show ?case
  proof (cases "resolveModule e (fwdPath statement) curPath wsRoot")
    case None
    then show ?thesis using 3(1) by simp
  next
    case rp: (Some resolvedPath)
    have ex: "fileExists e resolvedPath" using rp by (rule resolveModule_exists)
    show ?thesis
    proof (cases "readFile e resolvedPath")
      case (Inl err)
      then show ?thesis using rp by simp
    next
      case fc: (Inr fc)
      show ?thesis
      proof (cases "findAllForwardedMembers e fc resolvedPath wsRoot ty visitedFiles")
        case (Inl err)
        have "Suc (allDepth e fc resolvedPath wsRoot ty visitedFiles)
              \<le> Suc (unvisited e visitedFiles)"
          using ex 3(2) [OF rp fc Inl] by (rule nested_depth_step)
        then show ?thesis using rp fc Inl by simp
      next
        case (Inr nested)
        have "Suc (allDepth e fc resolvedPath wsRoot ty visitedFiles)
              \<le> Suc (unvisited e visitedFiles)"
          using ex 3(3) [OF rp fc Inr] by (rule nested_depth_step)
        moreover have "allLoopDepth e curPath wsRoot ty visitedFiles statements
              \<le> Suc (unvisited e visitedFiles)"
          using 3(4) [OF rp fc Inr] .
        ultimately show ?thesis using rp fc Inr by simp
      qed
    qed
  qed
qed

lemma unvisited_top:
  "unvisited e (insert cur {}) \<le> card (set (map fst (nodes e)))"
  "fileExists e cur \<Longrightarrow> Suc (unvisited e (insert cur {})) \<le> card (set (map fst (nodes e)))"
proof -
  show "unvisited e (insert cur {}) \<le> card (set (map fst (nodes e)))"
    unfolding unvisited_def by (rule card_mono) auto
  assume ex: "fileExists e cur"
  have "unvisited e (insert cur {}) < unvisited e {}"
    using ex by (rule unvisited_less) simp
  then show "Suc (unvisited e (insert cur {})) \<le> card (set (map fst (nodes e)))"
    by (simp add: unvisited_def)
qed

lemma withPrefix_None: "map (withPrefix None) ms = ms"
  by (induction ms) (simp_all add: withPrefix_def)

lemma stripForwardPrefix_None:
  "stripForwardPrefix \<lparr>fwdPath = pth, fwdPrefix = None, fwdLine = l\<rparr> m = Some m"
  by (simp add: stripForwardPrefix_def)

lemma cycle_findForwardedMember:
  assumes "parseForwardStatements contentA = [\<lparr>fwdPath = pathB, fwdPrefix = None, fwdLine = lA\<rparr>]"
    and "resolveModule e pathB fileA root = Some fileB"
    and "readFile e fileB = Inr contentB"
    and "parseForwardStatements contentB = [\<lparr>fwdPath = pathA, fwdPrefix = None, fwdLine = lB\<rparr>]"
    and "resolveModule e pathA fileB root = Some fileA"
    and "readFile e fileA = Inr contentA"
    and "fileA \<noteq> fileB"
  shows "findForwardedMember e {} contentA m fileA root
         = Inr (Some \<lparr>originalName = m, forwardedPath = fileA\<rparr>)"
    and "forwardDepth e {} contentA m fileA root = 2"
proof -
  have a2: "findForwardedMember e (insert fileB (insert fileA {})) contentA m fileA root = Inr None"
    by (simp add: findForwardedMember.simps)
  have b: "findForwardedMember e (insert fileA {}) contentB m fileB root
           = Inr (Some \<lparr>originalName = m, forwardedPath = fileA\<rparr>)"
    using assms(4-7) a2
    by (simp add: findForwardedMember.simps [of e "insert fileA {}"] stripForwardPrefix_None)
  show "findForwardedMember e {} contentA m fileA root
         = Inr (Some \<lparr>originalName = m, forwardedPath = fileA\<rparr>)"
    using assms(1-3) b
    by (simp add: findForwardedMember.simps [of e "{}"] stripForwardPrefix_None)
  have d2: "forwardDepth e (insert fileB (insert fileA {})) contentA m fileA root = 0"
    by (simp add: forwardDepth.simps)
  have db: "forwardDepth e (insert fileA {}) contentB m fileB root = 1"
    using assms(4-7) d2
    by (simp add: forwardDepth.simps [of e "insert fileA {}"] stripForwardPrefix_None)
  show "forwardDepth e {} contentA m fileA root = 2"
    using assms(1-3) db
    by (simp add: forwardDepth.simps [of e "{}"] stripForwardPrefix_None)
qed

lemma cycle_findAllForwardedMembers:
  assumes "parseForwardStatements contentA = [\<lparr>fwdPath = pathB, fwdPrefix = None, fwdLine = lA\<rparr>]"
    and "resolveModule e pathB fileA root = Some fileB"
    and "readFile e fileB = Inr contentB"
    and "parseForwardStatements contentB = [\<lparr>fwdPath = pathA, fwdPrefix = None, fwdLine = lB\<rparr>]"
    and "resolveModule e pathA fileB root = Some fileA"
    and "readFile e fileA = Inr contentA"
    and "fileA \<noteq> fileB"
  shows "findAllForwardedMembers e contentA fileA root ty {}
         = Inr (publicMembers ty contentB fileB @ publicMembers ty contentA fileA)"
    and "allDepth e contentA fileA root ty {} = 2"
proof -
  have a2: "findAllForwardedMembers e contentA fileA root ty (insert fileB (insert fileA {})) = Inr []"
    by (simp add: findAllForwardedMembers.simps)
  have b: "findAllForwardedMembers e contentB fileB root ty (insert fileA {})
           = Inr (publicMembers ty contentA fileA)"
    using assms(4-7) a2
    by (simp add: findAllForwardedMembers.simps [of e contentB] withPrefix_None publicMembers_def)
  show "findAllForwardedMembers e contentA fileA root ty {}
         = Inr (publicMembers ty contentB fileB @ publicMembers ty contentA fileA)"
    using assms(1-3) b
    by (simp add: findAllForwardedMembers.simps [of e contentA] withPrefix_None publicMembers_def)
  have d2: "allDepth e contentA fileA root ty (insert fileB (insert fileA {})) = 0"
    by (simp add: allDepth.simps)
  have db: "allDepth e contentB fileB root ty (insert fileA {}) = 1"
    using assms(4-7) d2 a2
    by (simp add: allDepth.simps [of e contentB])
  show "allDepth e contentA fileA root ty {} = 2"
    using assms(1-3) db b
    by (simp add: allDepth.simps [of e contentA])
qed

text \<open>
  C4, as amended. \<open>A\<close> forwards \<open>B\<close> and \<open>B\<close> forwards \<open>A\<close>, both without a prefix; the current
  file imports \<open>A\<close>, and neither \<open>A\<close> nor \<open>B\<close> defines the member. Both functions return. The
  listing holds the public members that \<open>B\<close> and \<open>A\<close> define themselves, and is empty when they
  define none. \<open>findForwardedMember\<close> does not return an absent result: the guard ends the
  recursion when \<open>A\<close> is reached again, and each hop on the way back reports a hit, so the
  result names the member and the file \<open>A\<close>; the lookup built on it finds no definition there
  and produces none. The recursion is two calls deep, and for every content and every
  existing file the depth of both functions is at most the number of paths of the file
  system.
\<close>

theorem cycle_guard_terminates:
  assumes "parseForwardStatements contentA = [\<lparr>fwdPath = pathB, fwdPrefix = None, fwdLine = lA\<rparr>]"
    and "resolveModule e pathB fileA (workspaceRoot ctx) = Some fileB"
    and "readFile e fileB = Inr contentB"
    and "parseForwardStatements contentB = [\<lparr>fwdPath = pathA, fwdPrefix = None, fwdLine = lB\<rparr>]"
    and "resolveModule e pathA fileB (workspaceRoot ctx) = Some fileA"
    and "readFile e fileA = Inr contentA"
    and "fileA \<noteq> fileB"
    and "readFile e (currentFilePath ctx) = Inr cc"
    and "findUseByNamespace cc (namespace ctx) = Some u"
    and "resolveModule e (usePath u) (currentFilePath ctx) (workspaceRoot ctx) = Some fileA"
    and "cursorTarget ctx = MemberTarget"
    and "(if startsWith (member ctx) ''$''
          then findVariableDefinition contentA (member ctx) fileA
          else findMixinDefinition contentA (member ctx) fileA) = None"
    and "(if startsWith (member ctx) ''$''
          then findVariableDefinition contentB (member ctx) fileB
          else findMixinDefinition contentB (member ctx) fileB) = None"
  shows "findForwardedMember e {} contentA (member ctx) fileA (workspaceRoot ctx)
           = Inr (Some \<lparr>originalName = member ctx, forwardedPath = fileA\<rparr>)
       \<and> resolveDefinition e ctx = Inr None
       \<and> findAllForwardedMembers e contentA fileA (workspaceRoot ctx) ty {}
           = Inr (publicMembers ty contentB fileB @ publicMembers ty contentA fileA)
       \<and> (directMembers ty contentA fileA = [] \<and> directMembers ty contentB fileB = [] \<longrightarrow>
            findAllForwardedMembers e contentA fileA (workspaceRoot ctx) ty {} = Inr [])
       \<and> forwardDepth e {} contentA (member ctx) fileA (workspaceRoot ctx) = 2
       \<and> allDepth e contentA fileA (workspaceRoot ctx) ty {} = 2
       \<and> (\<forall>content m cur root. fileExists e cur \<longrightarrow>
            forwardDepth e {} content m cur root \<le> card (set (map fst (nodes e))))
       \<and> (\<forall>content cur root t. fileExists e cur \<longrightarrow>
            allDepth e content cur root t {} \<le> card (set (map fst (nodes e))))"
proof -
  have f: "findForwardedMember e {} contentA (member ctx) fileA (workspaceRoot ctx)
           = Inr (Some \<lparr>originalName = member ctx, forwardedPath = fileA\<rparr>)"
    using assms(1-7) by (rule cycle_findForwardedMember(1))
  have fd: "forwardDepth e {} contentA (member ctx) fileA (workspaceRoot ctx) = 2"
    using assms(1-7) by (rule cycle_findForwardedMember(2))
  have a: "findAllForwardedMembers e contentA fileA (workspaceRoot ctx) ty {}
           = Inr (publicMembers ty contentB fileB @ publicMembers ty contentA fileA)"
    using assms(1-7) by (rule cycle_findAllForwardedMembers(1))
  have ad: "allDepth e contentA fileA (workspaceRoot ctx) ty {} = 2"
    using assms(1-7) by (rule cycle_findAllForwardedMembers(2))
  have "resolveDefinition e ctx =
     Inr (map_option locationOf
            (if startsWith (member ctx) ''$'' then findVariableDefinition contentA (member ctx) fileA
             else findMixinDefinition contentA (member ctx) fileA))"
    by (rule resolveDefinition_member [OF assms(8-11) assms(6) f _ assms(6)])
       (simp add: findTarget_def)
  then have r: "resolveDefinition e ctx = Inr None" using assms(12) by simp
  have e0: "directMembers ty contentA fileA = [] \<and> directMembers ty contentB fileB = [] \<longrightarrow>
            findAllForwardedMembers e contentA fileA (workspaceRoot ctx) ty {} = Inr []"
    using a by (simp add: publicMembers_def)
  have b1: "\<forall>content m cur root. fileExists e cur \<longrightarrow>
            forwardDepth e {} content m cur root \<le> card (set (map fst (nodes e)))"
  proof (intro allI impI)
    fix content m cur root assume ex: "fileExists e cur"
    have "forwardDepth e {} content m cur root \<le> Suc (unvisited e (insert cur {}))"
      using forwardDepth_bound(1) [of e "{}" content m cur root] by simp
    then show "forwardDepth e {} content m cur root \<le> card (set (map fst (nodes e)))"
      using unvisited_top(2) [OF ex] by linarith
  qed
  have b2: "\<forall>content cur root t. fileExists e cur \<longrightarrow>
            allDepth e content cur root t {} \<le> card (set (map fst (nodes e)))"
  proof (intro allI impI)
    fix content cur root t assume ex: "fileExists e cur"
    have "allDepth e content cur root t {} \<le> Suc (unvisited e (insert cur {}))"
      using allDepth_bound(1) [of e content cur root t "{}"] by simp
    then show "allDepth e content cur root t {} \<le> card (set (map fst (nodes e)))"
      using unvisited_top(2) [OF ex] by linarith
  qed
  show ?thesis using f r a e0 fd ad b1 b2 by blast
qed

text \<open>Two files that forward each other, and a document that imports the first.\<close>

definition cycleEnv :: env where
  "cycleEnv =
     \<lparr>nodes = [(''/w/main.scss'', File ''@use \"./a\" as m;''),
               (''/w/a.scss'', File ''@forward \"./b\";''),
               (''/w/b.scss'', File ''@forward \"./a\";'')],
      cwd = ''/w'',
      jsonParse = (\<lambda>content. None)\<rparr>"

definition cycleContext :: ResolutionContext where
  "cycleContext =
     \<lparr>token = ''m.missing'', namespace = ''m'', member = ''missing'',
      currentFilePath = ''/w/main.scss'', workspaceRoot = ''/w'', cursorTarget = MemberTarget\<rparr>"

text \<open>The theorem at these files, for a mixin \<open>missing\<close> that neither defines.\<close>

theorem cycle_guard_terminates_witness:
  "findForwardedMember cycleEnv {} ''@forward \"./b\";'' ''missing'' ''/w/a.scss'' ''/w''
     = Inr (Some \<lparr>originalName = ''missing'', forwardedPath = ''/w/a.scss''\<rparr>)
   \<and> resolveDefinition cycleEnv cycleContext = Inr None
   \<and> findAllForwardedMembers cycleEnv ''@forward \"./b\";'' ''/w/a.scss'' ''/w'' MixinType {} = Inr []
   \<and> forwardDepth cycleEnv {} ''@forward \"./b\";'' ''missing'' ''/w/a.scss'' ''/w'' = 2
   \<and> allDepth cycleEnv ''@forward \"./b\";'' ''/w/a.scss'' ''/w'' MixinType {} = 2"
proof -
  have h1: "parseForwardStatements ''@forward \"./b\";''
            = [\<lparr>fwdPath = ''./b'', fwdPrefix = None, fwdLine = 0\<rparr>]" by code_simp
  have h2: "resolveModule cycleEnv ''./b'' ''/w/a.scss'' (workspaceRoot cycleContext) = Some ''/w/b.scss''"
    unfolding cycleEnv_def cycleContext_def by code_simp
  have h3: "readFile cycleEnv ''/w/b.scss'' = Inr ''@forward \"./a\";''"
    unfolding cycleEnv_def by code_simp
  have h4: "parseForwardStatements ''@forward \"./a\";''
            = [\<lparr>fwdPath = ''./a'', fwdPrefix = None, fwdLine = 0\<rparr>]" by code_simp
  have h5: "resolveModule cycleEnv ''./a'' ''/w/b.scss'' (workspaceRoot cycleContext) = Some ''/w/a.scss''"
    unfolding cycleEnv_def cycleContext_def by code_simp
  have h6: "readFile cycleEnv ''/w/a.scss'' = Inr ''@forward \"./b\";''"
    unfolding cycleEnv_def by code_simp
  have h7: "''/w/a.scss'' \<noteq> ''/w/b.scss''" by simp
  have h8: "readFile cycleEnv (currentFilePath cycleContext) = Inr ''@use \"./a\" as m;''"
    unfolding cycleEnv_def cycleContext_def by code_simp
  have h9: "findUseByNamespace ''@use \"./a\" as m;'' (namespace cycleContext)
            = Some \<lparr>usePath = ''./a'', useNamespace = ''m'', useLine = 0\<rparr>"
    unfolding cycleContext_def by code_simp
  have h10: "resolveModule cycleEnv (usePath \<lparr>usePath = ''./a'', useNamespace = ''m'', useLine = 0\<rparr>)
              (currentFilePath cycleContext) (workspaceRoot cycleContext) = Some ''/w/a.scss''"
    unfolding cycleEnv_def cycleContext_def by code_simp
  have h11: "cursorTarget cycleContext = MemberTarget"
    unfolding cycleContext_def by simp
  have h12: "(if startsWith (member cycleContext) ''$''
          then findVariableDefinition ''@forward \"./b\";'' (member cycleContext) ''/w/a.scss''
          else findMixinDefinition ''@forward \"./b\";'' (member cycleContext) ''/w/a.scss'') = None"
    unfolding cycleContext_def by code_simp
  have h13: "(if startsWith (member cycleContext) ''$''
          then findVariableDefinition ''@forward \"./a\";'' (member cycleContext) ''/w/b.scss''
          else findMixinDefinition ''@forward \"./a\";'' (member cycleContext) ''/w/b.scss'') = None"
    unfolding cycleContext_def by code_simp
  have dA: "directMembers MixinType ''@forward \"./b\";'' ''/w/a.scss'' = []" by code_simp
  have dB: "directMembers MixinType ''@forward \"./a\";'' ''/w/b.scss'' = []" by code_simp
  have w: "workspaceRoot cycleContext = ''/w''" "member cycleContext = ''missing''"
    unfolding cycleContext_def by simp_all
  show ?thesis
    using cycle_guard_terminates [OF h1 h2 h3 h4 h5 h6 h7 h8 h9 h10 h11 h12 h13, of MixinType] dA dB
    by (simp add: w publicMembers_def)
qed


text \<open>
  C4 as stated fails for \<open>findForwardedMember\<close>: on the cycle it returns a hop, not an absent
  result, for a member that neither file defines.
\<close>

theorem cycle_guard_terminates_counterexample:
  "findForwardedMember cycleEnv {} ''@forward \"./b\";'' ''missing'' ''/w/a.scss'' ''/w'' \<noteq> Inr None
   \<and> findMixinDefinition ''@forward \"./b\";'' ''missing'' ''/w/a.scss'' = None
   \<and> findMixinDefinition ''@forward \"./a\";'' ''missing'' ''/w/b.scss'' = None"
  unfolding cycleEnv_def by code_simp

section \<open>The location of a mixin\<close>

lemma findMixinFrom_Some:
  "findMixinFrom content nm fp ln ls = Some d \<Longrightarrow>
   filePath d = fp \<and> ln \<le> line d \<and> line d - ln < length ls
   \<and> (\<exists>n. MIXIN_PATTERN (drop (column d) (ls ! (line d - ln))) = Some (nm, n))"
proof (induction ls arbitrary: ln)
  case Nil
  then show ?case by simp
next
  case (Cons l ls)
  show ?case
  proof (cases "\<not> isCommentLine l
                \<and> find (\<lambda>(index, foundMixinName). foundMixinName = nm) (matchAll MIXIN_PATTERN 0 l) \<noteq> None")
    case True
    then obtain i a where f: "find (\<lambda>(index, foundMixinName). foundMixinName = nm)
                                (matchAll MIXIN_PATTERN 0 l) = Some (i, a)"
      by auto
    have fm: "(i, a) \<in> set (matchAll MIXIN_PATTERN 0 l)
              \<and> (case (i, a) of (index, foundMixinName) \<Rightarrow> foundMixinName = nm)"
      by (rule find_Some_member [OF f])
    then have an: "a = nm" by simp
    have "\<exists>n. MIXIN_PATTERN (drop (i - 0) l) = Some (a, n)"
      using matchAll_sound [of i a MIXIN_PATTERN 0 l] fm by blast
    then have "\<exists>n. MIXIN_PATTERN (drop i l) = Some (nm, n)"
      using an by simp
    moreover have "d = \<lparr>name = nm, filePath = fp, line = ln, column = i,
                        parameters = parseMixinParameters content nm ln, varValue = None\<rparr>"
      using Cons.prems True f by simp
    ultimately show ?thesis by simp
  next
    case False
    then have "findMixinFrom content nm fp (Suc ln) ls = Some d"
      using Cons.prems by (auto split: if_splits option.splits)
    then have ih: "filePath d = fp \<and> Suc ln \<le> line d \<and> line d - Suc ln < length ls
       \<and> (\<exists>n. MIXIN_PATTERN (drop (column d) (ls ! (line d - Suc ln))) = Some (nm, n))"
      by (rule Cons.IH)
    have "line d - ln = Suc (line d - Suc ln)" using ih by arith
    then have "(l # ls) ! (line d - ln) = ls ! (line d - Suc ln)"
      by simp
    then show ?thesis using ih by auto
  qed
qed

lemma findMixinDefinition_Some:
  assumes "findMixinDefinition content nm fp = Some d"
  shows "filePath d = fp \<and> line d < length (splitLines content)
   \<and> (\<exists>n. MIXIN_PATTERN (drop (column d) (splitLines content ! line d)) = Some (nm, n))"
  using findMixinFrom_Some [of content nm fp 0 "splitLines content" d] assms
  by (simp add: findMixinDefinition_def)

lemma resolveDefinitionBody_mixin_Some:
  assumes "resolveDefinitionBody e ctx = Inr (Some loc)"
    and "cursorTarget ctx = MemberTarget" and "\<not> startsWith (member ctx) ''$''"
  shows "\<exists>tc tn tf d. readFile e tf = Inr tc \<and> findMixinDefinition tc tn tf = Some d
           \<and> loc = locationOf d"
  using assms
  unfolding resolveDefinitionBody_def
  by (auto simp: Let_def split: sum.splits option.splits prod.splits)

text \<open>
  Whatever the files are: when the lookup of a mixin reference, with the cursor on the
  member, returns a location, the file of the location can be read, and at the line and
  column of the location \<open>MIXIN_PATTERN\<close> matches, so the keyword \<open>@mixin\<close> starts there.
\<close>

lemma mixin_location_matches:
  assumes "provideDefinition e doc pos = Inr (Some loc)"
    and "extractIncludeCallContext doc pos = Inr None"
    and "extractContext doc pos = Inr (Some ctx)"
    and "cursorTarget ctx = MemberTarget"
    and "\<not> startsWith (member ctx) ''$''"
  shows "\<exists>content nm n.
           readFile e (uri loc) = Inr content
           \<and> locLine loc < length (splitLines content)
           \<and> MIXIN_PATTERN (drop (locColumn loc) (splitLines content ! locLine loc)) = Some (nm, n)
           \<and> startsWith (drop (locColumn loc) (splitLines content ! locLine loc)) ''@mixin''"
proof -
  have "resolveDefinition e ctx = Inr (Some loc)"
    using assms(1,2,3) by (simp add: provideDefinition_def provideDefinitionBody_def catchAll_def
        split: sum.splits)
  then have "resolveDefinitionBody e ctx = Inr (Some loc)"
    by (simp add: resolveDefinition_def catchAll_def split: sum.splits)
  then obtain tc tn tf d where h: "readFile e tf = Inr tc" "findMixinDefinition tc tn tf = Some d"
      "loc = locationOf d"
    using resolveDefinitionBody_mixin_Some [OF _ assms(4,5)] by blast
  from findMixinDefinition_Some [OF h(2)] obtain n where
      d: "filePath d = tf" "line d < length (splitLines tc)"
         "MIXIN_PATTERN (drop (column d) (splitLines tc ! line d)) = Some (tn, n)"
    by blast
  have "startsWith (drop (column d) (splitLines tc ! line d)) ''@mixin''"
    using d(3) by (rule MIXIN_PATTERN_keyword)
  then show ?thesis using h(1,3) d by (auto simp: locationOf_def)
qed

text \<open>
  C6, as amended. The document imports the file \<open>A\<close> under the alias of the reference; \<open>A\<close>
  forwards nothing, and one of its lines is the head of the definition of the mixin that the
  reference names: indentation, \<open>@mixin\<close>, white space, the name, and \<open>(\<close> or \<open>{\<close>; the name
  does not occur on a line before. Then the lookup, with the cursor on the member, returns
  the location in \<open>A\<close> at the line of the definition and at the column at which the keyword
  \<open>@mixin\<close> starts. The name starts further to the right, behind the keyword and the white
  space. The provider returns the same location for a cursor that gives this context.
\<close>

theorem mixin_location_is_keyword:
  assumes "readFile e (currentFilePath ctx) = Inr cc"
    and "findUseByNamespace cc (namespace ctx) = Some u"
    and "resolveModule e (usePath u) (currentFilePath ctx) (workspaceRoot ctx) = Some fileA"
    and "cursorTarget ctx = MemberTarget"
    and "readFile e fileA = Inr contentA"
    and "\<forall>l \<in> set (splitLines contentA). indexOf l ''@forward'' = None"
    and "splitLines contentA
         = before @ (indent @ ''@mixin'' @ w1 @ member ctx @ w2 @ c # rest) # after"
    and "\<forall>l \<in> set before. indexOf l (member ctx) = None"
    and "\<forall>x \<in> set indent. isSpace x"
    and "w1 \<noteq> []"
    and "\<forall>x \<in> set w1. isSpace x"
    and "member ctx \<noteq> []"
    and "\<forall>x \<in> set (member ctx). isName x"
    and "\<forall>x \<in> set w2. isSpace x"
    and "c = CHR ''('' \<or> c = CHR ''{''"
  shows "resolveDefinition e ctx
           = Inr (Some \<lparr>uri = fileA, locLine = length before, locColumn = length indent\<rparr>)
       \<and> take 6 (drop (length indent) (splitLines contentA ! length before)) = ''@mixin''
       \<and> take (length (member ctx))
              (drop (length indent + 6 + length w1) (splitLines contentA ! length before))
           = member ctx
       \<and> (extractIncludeCallContext doc pos = Inr None \<longrightarrow>
          extractContext doc pos = Inr (Some ctx) \<longrightarrow>
          provideDefinition e doc pos
            = Inr (Some \<lparr>uri = fileA, locLine = length before, locColumn = length indent\<rparr>))"
proof -
  let ?loc = "\<lparr>uri = fileA, locLine = length before, locColumn = length indent\<rparr>"
  have noA: "parseForwardStatements contentA = []"
    using assms(6) by (rule parseForwardStatements_none)
  have miss: "findForwardedMember e {} contentA (member ctx) fileA (workspaceRoot ctx) = Inr None"
    using noA by (rule findForwardedMember_no_forwards)
  have "findMixinFrom contentA (member ctx) fileA 0
          (before @ (indent @ ''@mixin'' @ w1 @ member ctx @ w2 @ c # rest) # after)
        = Some \<lparr>name = member ctx, filePath = fileA, line = 0 + length before,
                column = length indent,
                parameters = parseMixinParameters contentA (member ctx) (0 + length before),
                varValue = None\<rparr>"
    using assms(8-15) by (rule findMixinFrom_found)
  then have found: "findMixinDefinition contentA (member ctx) fileA
        = Some \<lparr>name = member ctx, filePath = fileA, line = length before,
                column = length indent,
                parameters = parseMixinParameters contentA (member ctx) (length before),
                varValue = None\<rparr>"
    by (simp add: findMixinDefinition_def assms(7))
  have nd: "\<not> startsWith (member ctx) ''$''"
  proof
    assume "startsWith (member ctx) ''$''"
    then have "CHR ''$'' \<in> set (member ctx)"
      by (cases "member ctx") (auto simp: startsWith_def)
    then have "isName (CHR ''$'')" using assms(13) by blast
    then show False by (simp add: isName_def isWord_def)
  qed
  have "resolveDefinition e ctx =
     Inr (map_option locationOf
            (if startsWith (member ctx) ''$''
             then findVariableDefinition contentA (member ctx) fileA
             else findMixinDefinition contentA (member ctx) fileA))"
    by (rule resolveDefinition_member [OF assms(1-5) miss _ assms(5)]) (simp add: findTarget_def)
  then have r: "resolveDefinition e ctx = Inr (Some ?loc)"
    using nd found by (simp add: locationOf_def)
  have l: "splitLines contentA ! length before
           = indent @ ''@mixin'' @ w1 @ member ctx @ w2 @ c # rest"
    by (simp add: assms(7))
  have k: "take 6 (drop (length indent) (splitLines contentA ! length before)) = ''@mixin''"
    unfolding l by simp
  have "drop (length indent + 6 + length w1) (indent @ ''@mixin'' @ w1 @ member ctx @ w2 @ c # rest)
        = member ctx @ w2 @ c # rest"
    by (simp add: eval_nat_numeral)
  then have n: "take (length (member ctx))
              (drop (length indent + 6 + length w1) (splitLines contentA ! length before))
           = member ctx"
    unfolding l by simp
  have p: "provideDefinition e doc pos = Inr (Some ?loc)"
    if "extractIncludeCallContext doc pos = Inr None" and "extractContext doc pos = Inr (Some ctx)"
    using that r
    by (simp add: provideDefinition_def provideDefinitionBody_def resolveDefinition_def catchAll_def
          split: sum.splits)
  show ?thesis using r k n p by blast
qed

text \<open>
  The files of the claim: the document imports \<open>./a\<close> as \<open>m\<close> and refers to \<open>m.go\<close>; \<open>a.scss\<close> is
  \<open>@mixin go() {}\<close>. The cursor is on the \<open>g\<close> of \<open>go\<close>.
\<close>

definition includeEnv :: env where
  "includeEnv =
     \<lparr>nodes = [(''/w/main.scss'', File (''@use \"./a\" as m;'' @ [CHR 0x0A] @ ''@include m.go;'')),
               (''/w/a.scss'', File ''@mixin go() {}'')],
      cwd = ''/w'',
      jsonParse = (\<lambda>content. None)\<rparr>"

definition includeDocument :: TextDocument where
  "includeDocument =
     \<lparr>fsPath = ''/w/main.scss'',
      docLines = [''@use \"./a\" as m;'', ''@include m.go;''],
      workspaceFolder = Some ''/w''\<rparr>"

theorem mixin_location_is_keyword_witness:
  "provideDefinition includeEnv includeDocument \<lparr>posLine = 1, character = 11\<rparr>
     = Inr (Some \<lparr>uri = ''/w/a.scss'', locLine = 0, locColumn = 0\<rparr>)
   \<and> resolveDefinition includeEnv
        \<lparr>token = ''m.go'', namespace = ''m'', member = ''go'',
         currentFilePath = ''/w/main.scss'', workspaceRoot = ''/w'',
         cursorTarget = MemberTarget\<rparr>
     = Inr (Some \<lparr>uri = ''/w/a.scss'', locLine = 0, locColumn = 0\<rparr>)
   \<and> take 6 (drop 0 (splitLines ''@mixin go() {}'' ! 0)) = ''@mixin''
   \<and> take 2 (drop 7 (splitLines ''@mixin go() {}'' ! 0)) = ''go''"
proof -
  let ?pos = "\<lparr>posLine = 1, character = 11\<rparr>"
  let ?ctx = "\<lparr>token = ''m.go'', namespace = ''m'', member = ''go'',
               currentFilePath = ''/w/main.scss'', workspaceRoot = ''/w'',
               cursorTarget = MemberTarget\<rparr>"
  let ?u = "\<lparr>usePath = ''./a'', useNamespace = ''m'', useLine = 0\<rparr>"
  have h1: "readFile includeEnv (currentFilePath ?ctx)
            = Inr (''@use \"./a\" as m;'' @ [CHR 0x0A] @ ''@include m.go;'')"
    unfolding includeEnv_def by code_simp
  have h2: "findUseByNamespace (''@use \"./a\" as m;'' @ [CHR 0x0A] @ ''@include m.go;'')
              (namespace ?ctx) = Some ?u"
    by code_simp
  have h3: "resolveModule includeEnv (usePath ?u) (currentFilePath ?ctx) (workspaceRoot ?ctx)
            = Some ''/w/a.scss''"
    unfolding includeEnv_def by code_simp
  have h4: "cursorTarget ?ctx = MemberTarget" by simp
  have h5: "readFile includeEnv ''/w/a.scss'' = Inr ''@mixin go() {}''"
    unfolding includeEnv_def by code_simp
  have h6: "\<forall>l \<in> set (splitLines ''@mixin go() {}''). indexOf l ''@forward'' = None"
    by code_simp
  have h7: "splitLines ''@mixin go() {}''
            = [] @ ([] @ ''@mixin'' @ '' '' @ member ?ctx @ [] @ CHR ''('' # '') {}'') # []"
    by code_simp
  have h8: "\<forall>l \<in> set ([] :: string list). indexOf l (member ?ctx) = None" by simp
  have h9: "\<forall>x \<in> set ([] :: string). isSpace x" by simp
  have h10: "'' '' \<noteq> []" by simp
  have h11: "\<forall>x \<in> set '' ''. isSpace x" by code_simp
  have h12: "member ?ctx \<noteq> []" by simp
  have h13: "\<forall>x \<in> set (member ?ctx). isName x" by code_simp
  have h15: "CHR ''('' = CHR ''('' \<or> CHR ''('' = CHR ''{''" by simp
  have c1: "extractIncludeCallContext includeDocument ?pos = Inr None"
    unfolding includeDocument_def by code_simp
  have c2: "extractContext includeDocument ?pos = Inr (Some ?ctx)"
    unfolding includeDocument_def by code_simp
  note t = mixin_location_is_keyword
             [OF h1 h2 h3 h4 h5 h6 h7 h8 h9 h10 h11 h12 h13 h9 h15,
              of includeDocument ?pos]
  have a: "provideDefinition includeEnv includeDocument ?pos
     = Inr (Some \<lparr>uri = ''/w/a.scss'', locLine = 0, locColumn = 0\<rparr>)"
    using t c1 c2 by simp
  have b: "resolveDefinition includeEnv ?ctx
     = Inr (Some \<lparr>uri = ''/w/a.scss'', locLine = 0, locColumn = 0\<rparr>)"
    using t by simp
  have c: "take 6 (drop 0 (splitLines ''@mixin go() {}'' ! 0)) = ''@mixin''" by code_simp
  have d: "take 2 (drop 7 (splitLines ''@mixin go() {}'' ! 0)) = ''go''" by code_simp
  show ?thesis using a b c d by simp
qed

text \<open>
  C6 as stated fails: the name \<open>go\<close> stands at column 7 of \<open>@mixin go() {}\<close>, and the location
  returned has column 0, where \<open>@mixin\<close> starts.
\<close>

theorem mixin_location_is_keyword_counterexample:
  "provideDefinition includeEnv includeDocument \<lparr>posLine = 1, character = 11\<rparr>
     = Inr (Some \<lparr>uri = ''/w/a.scss'', locLine = 0, locColumn = 0\<rparr>)
   \<and> indexOf ''@mixin go() {}'' ''go'' = Some 7"
  unfolding includeEnv_def includeDocument_def by code_simp

section \<open>The position of a parameter\<close>

text \<open>
  A mixin whose first parameter, \<open>$size-large\<close>, begins with the name of its second, \<open>$size\<close>;
  the document passes \<open>$size\<close> and the cursor is on it.
\<close>

definition collisionEnv :: env where
  "collisionEnv =
     \<lparr>nodes = [(''/w/main.scss'', File (''@use \"./a\" as m;'' @ [CHR 0x0A]
                                      @ ''@include m.box($size: 3);'')),
               (''/w/a.scss'', File ''@mixin box($size-large: 1, $size: 2) {}'')],
      cwd = ''/w'',
      jsonParse = (\<lambda>content. None)\<rparr>"

definition collisionDocument :: TextDocument where
  "collisionDocument =
     \<lparr>fsPath = ''/w/main.scss'',
      docLines = [''@use \"./a\" as m;'', ''@include m.box($size: 3);''],
      workspaceFolder = Some ''/w''\<rparr>"

text \<open>
  C7. The claim is that the argument resolves to the declared position of its own
  parameter. For \<open>$size\<close> that is column 27 of the definition. The search of
  \<open>calculateParameterPosition\<close> ends the name with \<open>\b\<close>, and a hyphen is a boundary, so the
  first match of \<open>$size\<close> is inside \<open>$size-large\<close>: the location returned is column 11, the
  position of the other parameter.
\<close>

theorem parameter_position_collision:
  "extractIncludeCallContext collisionDocument \<lparr>posLine = 1, character = 16\<rparr>
     = Inr (Some \<lparr>incNamespace = ''m'', incMixinName = ''box'', incArgumentName = ''size''\<rparr>)
   \<and> provideDefinition collisionEnv collisionDocument \<lparr>posLine = 1, character = 16\<rparr>
     = Inr (Some \<lparr>uri = ''/w/a.scss'', locLine = 0, locColumn = 11\<rparr>)
   \<and> drop 11 ''@mixin box($size-large: 1, $size: 2) {}'' = ''$size-large: 1, $size: 2) {}''
   \<and> drop 27 ''@mixin box($size-large: 1, $size: 2) {}'' = ''$size: 2) {}''"
  unfolding collisionEnv_def collisionDocument_def by code_simp

text \<open>The example of the claim itself: \<open>$variant\<close> of \<open>button\<close> resolves to its own position.\<close>

definition buttonEnv :: env where
  "buttonEnv =
     \<lparr>nodes = [(''/w/main.scss'', File (''@use \"./a\" as m;'' @ [CHR 0x0A]
                                      @ ''@include m.button($size: large, $variant: solid);'')),
               (''/w/a.scss'', File ''@mixin button($size: medium, $variant: solid) {}'')],
      cwd = ''/w'',
      jsonParse = (\<lambda>content. None)\<rparr>"

definition buttonDocument :: TextDocument where
  "buttonDocument =
     \<lparr>fsPath = ''/w/main.scss'',
      docLines = [''@use \"./a\" as m;'', ''@include m.button($size: large, $variant: solid);''],
      workspaceFolder = Some ''/w''\<rparr>"

lemma parameter_position_button:
  "provideDefinition buttonEnv buttonDocument \<lparr>posLine = 1, character = 34\<rparr>
     = Inr (Some \<lparr>uri = ''/w/a.scss'', locLine = 0, locColumn = 29\<rparr>)
   \<and> drop 29 ''@mixin button($size: medium, $variant: solid) {}'' = ''$variant: solid) {}''"
  unfolding buttonEnv_def buttonDocument_def by code_simp

section \<open>The cursor on the namespace\<close>

text \<open>
  C10. The claim is that a cursor on the dot of \<open>alias.member\<close> is classified as a cursor on
  the namespace, and the lookup jumps to the top of the module. In \<open>extractContext\<close> the scan
  forward from the cursor stops at the dot, which is no token character: the token is the
  alias alone, it holds no dot, and the function returns nothing. The same happens with the
  cursor on the alias. The lookup returns no location, though the module resolves.
\<close>

theorem cursor_on_dot_no_context:
  "extractContext includeDocument \<lparr>posLine = 1, character = 10\<rparr> = Inr None
   \<and> provideDefinition includeEnv includeDocument \<lparr>posLine = 1, character = 10\<rparr> = Inr None
   \<and> extractContext includeDocument \<lparr>posLine = 1, character = 9\<rparr> = Inr None
   \<and> provideDefinition includeEnv includeDocument \<lparr>posLine = 1, character = 9\<rparr> = Inr None
   \<and> ''@include m.go;'' ! 10 = CHR ''.''
   \<and> resolveModule includeEnv ''./a'' ''/w/main.scss'' ''/w'' = Some ''/w/a.scss''"
  unfolding includeEnv_def includeDocument_def by code_simp

text \<open>
  The same for every cursor within its line: the token starts at or before the cursor,
  and the characters from the cursor to the end of the token are token characters, none of
  them a dot. A dot of the token is therefore before the cursor, so whenever
  \<open>extractContext\<close> returns a context, its target is the member.
\<close>

lemma scanBack_le: "scanBack cls l n \<le> n"
  by (induction n) (auto intro: le_SucI)

lemma indexOf_dot:
  "indexOf s ''.'' = Some k \<Longrightarrow> k < length s \<and> s ! k = CHR ''.''"
proof (induction s arbitrary: k)
  case Nil
  then show ?case by simp
next
  case (Cons c cs)
  show ?case
  proof (cases "c = CHR ''.''")
    case True
    then show ?thesis using Cons.prems by (simp add: startsWith_def)
  next
    case False
    then obtain j where j: "indexOf cs ''.'' = Some j" "k = Suc j"
      using Cons.prems by (auto simp: startsWith_def)
    then show ?thesis using Cons.IH by simp
  qed
qed

lemma token_run_has_no_dot:
  assumes "start \<le> cc" and "cc \<le> length l"
    and "indexOf (substring l start (scanForward isToken l cc)) ''.'' = Some k"
  shows "cc - start > k"
proof (rule ccontr)
  assume "\<not> cc - start > k"
  then have le: "cc \<le> start + k" by simp
  let ?run = "takeWhile isToken (drop cc l)"
  let ?e = "cc + length ?run"
  have e: "scanForward isToken l cc = ?e" by (simp add: scanForward_def)
  have "length ?run \<le> length (drop cc l)" by (rule length_takeWhile_le)
  then have el: "?e \<le> length l" using assms(2) by simp
  have sub: "substring l start ?e = take (?e - start) (drop start l)"
    using assms(1) el by (simp add: substring_def Let_def min_def max_def)
  from indexOf_dot [OF assms(3)] have k: "k < length (substring l start ?e)"
      "substring l start ?e ! k = CHR ''.''"
    unfolding e by simp_all
  have klt: "k < ?e - start" using k(1) sub by simp
  then have "substring l start ?e ! k = l ! (start + k)"
    using sub el by simp
  then have dot: "l ! (start + k) = CHR ''.''" using k(2) by simp
  define j where "j = start + k - cc"
  have j: "j < length ?run" "start + k = cc + j" using klt le by (simp_all add: j_def)
  have "?run ! j = drop cc l ! j" using j(1) by (rule takeWhile_nth)
  also have "\<dots> = l ! (cc + j)" using assms(2) by simp
  finally have "?run ! j = CHR ''.''" using dot j(2) by simp
  moreover have "isToken (?run ! j)"
    using j(1) by (metis nth_mem set_takeWhileD)
  ultimately show False by (simp add: isToken_def isWord_def)
qed

lemma extractContext_never_namespace:
  assumes ctx: "extractContext doc pos = Inr (Some ctx)"
    and inside: "character pos \<le> length (docLines doc ! posLine pos)"
  shows "cursorTarget ctx = MemberTarget"
proof -
  define l where "l = docLines doc ! posLine pos"
  define cc where "cc = character pos"
  define s0 where "s0 = (if cc < length l \<and> isToken (l ! cc) then cc else cc - 1)"
  define s1 where "s1 = scanBack isToken l s0"
  define start where
    "start = (if s1 > 0 \<and> s1 - 1 < length l \<and> l ! (s1 - 1) = CHR ''.''
              then scanBack isName l (s1 - 1) else s1)"
  have s0: "s0 \<le> cc" by (simp add: s0_def)
  have s1: "s1 \<le> s0" unfolding s1_def by (rule scanBack_le)
  have "scanBack isName l (s1 - 1) \<le> s1 - 1" by (rule scanBack_le)
  then have "scanBack isName l (s1 - 1) \<le> s1" by linarith
  then have "start \<le> s1" unfolding start_def by (simp del: scanBack.simps)
  then have sc: "start \<le> cc" using s0 s1 by linarith
  have cl: "cc \<le> length l" using inside by (simp add: cc_def l_def)
  have la: "lineAt doc (posLine pos) = Inr l"
    using ctx by (auto simp: extractContext_def lineAt_def l_def split: if_splits)
  have eq: "extractContext doc pos =
     (if (cc \<ge> length l \<or> \<not> isDotToken (l ! cc)) \<and> \<not> (cc > 0 \<and> testAt isToken l (cc - 1))
      then Inr None
      else if \<not> (cc < length l \<and> isToken (l ! cc)) \<and> \<not> (cc > 0 \<and> testAt isToken l (cc - 1))
      then Inr None
      else
        (case indexOf (substring l start (scanForward isToken l cc)) ''.'' of
           None \<Rightarrow> Inr None
         | Some dotIndex \<Rightarrow>
             if take dotIndex (substring l start (scanForward isToken l cc)) = []
                \<or> drop (dotIndex + 1) (substring l start (scanForward isToken l cc)) = []
             then Inr None
             else
               (case workspaceFolder doc of
                  None \<Rightarrow> Inr None
                | Some folder \<Rightarrow>
                    Inr (Some \<lparr>token = substring l start (scanForward isToken l cc),
                               namespace = take dotIndex
                                 (substring l start (scanForward isToken l cc)),
                               member = drop (dotIndex + 1)
                                 (substring l start (scanForward isToken l cc)),
                               currentFilePath = fsPath doc,
                               workspaceRoot = folder,
                               cursorTarget = (if cc - start \<le> dotIndex then NamespaceTarget
                                               else MemberTarget)\<rparr>))))"
    unfolding extractContext_def la sum.case Let_def start_def s1_def s0_def cc_def ..
  from ctx obtain k where
      k: "indexOf (substring l start (scanForward isToken l cc)) ''.'' = Some k"
      and t: "cursorTarget ctx = (if cc - start \<le> k then NamespaceTarget else MemberTarget)"
    unfolding eq by (auto split: if_splits option.splits)
  have "cc - start > k" using sc cl k by (rule token_run_has_no_dot)
  then show ?thesis using t by simp
qed

section \<open>The facade returns, with or without a location\<close>

lemma catchAll_Inr: "\<exists>r. catchAll x = Inr r"
  by (cases x) (simp_all add: catchAll_def)

lemma extractContext_path:
  "extractContext doc pos = Inr (Some ctx) \<Longrightarrow> currentFilePath ctx = fsPath doc"
  by (auto simp: extractContext_def Let_def split: sum.splits if_splits option.splits)

lemma provideDefinition_member_path:
  assumes "extractIncludeCallContext doc pos = Inr None"
    and "extractContext doc pos = Inr (Some ctx)"
  shows "provideDefinition e doc pos = resolveDefinition e ctx"
proof -
  obtain r where "resolveDefinition e ctx = Inr r"
    unfolding resolveDefinition_def using catchAll_Inr by blast
  then show ?thesis
    using assms by (simp add: provideDefinition_def provideDefinitionBody_def catchAll_def)
qed

lemma provideDefinition_argument_path:
  assumes "extractIncludeCallContext doc pos = Inr (Some inc)"
  shows "provideDefinition e doc pos = catchAll (resolveArgumentDefinition e inc doc)"
  using assms by (simp add: provideDefinition_def provideDefinitionBody_def)

lemma resolveDefinition_unreadable:
  "readFile e (currentFilePath ctx) = Inl err \<Longrightarrow> resolveDefinition e ctx = Inr None"
  by (simp add: resolveDefinition_def resolveDefinitionBody_def catchAll_def)

lemma resolveArgumentDefinition_unreadable:
  "readFile e (fsPath doc) = Inl err \<Longrightarrow> catchAll (resolveArgumentDefinition e inc doc) = Inr None"
  by (simp add: resolveArgumentDefinition_def catchAll_def split: option.splits)

lemma provideDefinition_unreadable:
  assumes "readFile e (fsPath doc) = Inl err"
  shows "provideDefinition e doc pos = Inr None"
proof (cases "extractIncludeCallContext doc pos")
  case (Inl x)
  then show ?thesis by (simp add: provideDefinition_def provideDefinitionBody_def catchAll_def)
next
  case (Inr ic)
  show ?thesis
  proof (cases ic)
    case (Some inc)
    then show ?thesis
      using Inr assms provideDefinition_argument_path resolveArgumentDefinition_unreadable
      by metis
  next
    case None
    show ?thesis
    proof (cases "extractContext doc pos")
      case (Inl x)
      then show ?thesis
        using Inr None by (simp add: provideDefinition_def provideDefinitionBody_def catchAll_def)
    next
      case r: (Inr c)
      show ?thesis
      proof (cases c)
        case None
        then show ?thesis
          using Inr r \<open>ic = None\<close>
          by (simp add: provideDefinition_def provideDefinitionBody_def catchAll_def)
      next
        case (Some ctx)
        have "currentFilePath ctx = fsPath doc"
          using r Some extractContext_path by blast
        then have "resolveDefinition e ctx = Inr None"
          using assms resolveDefinition_unreadable by metis
        then show ?thesis
          using Inr r Some \<open>ic = None\<close> provideDefinition_member_path by metis
      qed
    qed
  qed
qed

lemma resolveDefinition_no_import:
  "readFile e (currentFilePath ctx) = Inr cc \<Longrightarrow> findUseByNamespace cc (namespace ctx) = None \<Longrightarrow>
   resolveDefinition e ctx = Inr None"
  by (simp add: resolveDefinition_def resolveDefinitionBody_def catchAll_def)

lemma resolveDefinition_no_module:
  "readFile e (currentFilePath ctx) = Inr cc \<Longrightarrow> findUseByNamespace cc (namespace ctx) = Some u \<Longrightarrow>
   resolveModule e (usePath u) (currentFilePath ctx) (workspaceRoot ctx) = None \<Longrightarrow>
   resolveDefinition e ctx = Inr None"
  by (simp add: resolveDefinition_def resolveDefinitionBody_def catchAll_def)

lemma resolveArgumentDefinition_no_import:
  "readFile e (fsPath doc) = Inr cc \<Longrightarrow> findUseByNamespace cc (incNamespace inc) = None \<Longrightarrow>
   catchAll (resolveArgumentDefinition e inc doc) = Inr None"
  by (simp add: resolveArgumentDefinition_def catchAll_def split: option.splits)

lemma resolveArgumentDefinition_no_module:
  "readFile e (fsPath doc) = Inr cc \<Longrightarrow> findUseByNamespace cc (incNamespace inc) = Some u \<Longrightarrow>
   (\<forall>root. workspaceFolder doc = Some root \<longrightarrow> resolveModule e (usePath u) (fsPath doc) root = None) \<Longrightarrow>
   catchAll (resolveArgumentDefinition e inc doc) = Inr None"
  by (simp add: resolveArgumentDefinition_def catchAll_def split: option.splits)

lemma resolveArgumentDefinition_chain:
  assumes "workspaceFolder doc = Some root"
    and "readFile e (fsPath doc) = Inr cc"
    and "findUseByNamespace cc (incNamespace inc) = Some u"
    and "resolveModule e (usePath u) (fsPath doc) root = Some mp"
    and "readFile e mp = Inr mc"
    and "findForwardedMember e {} mc (incMixinName inc) mp root = Inr fr"
    and "readFile e (orElse (map_option forwardedPath fr) mp) = Inr tc"
  shows "resolveArgumentDefinition e inc doc =
     (case findMixinDefinition tc (orElse (map_option originalName fr) (incMixinName inc))
             (orElse (map_option forwardedPath fr) mp) of
        None \<Rightarrow> Inr None
      | Some mixinDef \<Rightarrow>
          (case parameters mixinDef of
             None \<Rightarrow> Inr None
           | Some ps \<Rightarrow>
               (case find (\<lambda>p. paramName p = incArgumentName inc) ps of
                  None \<Rightarrow> Inr None
                | Some targetParam \<Rightarrow>
                    Inr (Some \<lparr>uri = orElse (map_option forwardedPath fr) mp,
                               locLine = paramLine targetParam,
                               locColumn = paramColumn targetParam\<rparr>))))"
  using assms
  by (simp add: resolveArgumentDefinition_def Let_def split: option.splits)

text \<open>
  C9. \<open>provideDefinition\<close> never throws: for every file system, document and cursor it
  returns a value. An exception inside it, such as a failed read of the current file or a
  line the document does not have, is caught and gives no location. So does every ordinary
  miss: no import for the namespace, a module that does not resolve, a target file without
  the definition, a mixin without the parameter, on the path of a member reference and on
  the path of an argument of a mixin call.
\<close>

theorem provideDefinition_never_throws:
  "(\<exists>r. provideDefinition e doc pos = Inr r)
   \<and> (\<forall>err. provideDefinitionBody e doc pos = Inl err \<longrightarrow> provideDefinition e doc pos = Inr None)
   \<and> (\<forall>err. readFile e (fsPath doc) = Inl err \<longrightarrow> provideDefinition e doc pos = Inr None)
   \<and> (\<forall>ctx cc. extractIncludeCallContext doc pos = Inr None
          \<and> extractContext doc pos = Inr (Some ctx)
          \<and> readFile e (currentFilePath ctx) = Inr cc
          \<and> findUseByNamespace cc (namespace ctx) = None
        \<longrightarrow> provideDefinition e doc pos = Inr None)
   \<and> (\<forall>inc cc. extractIncludeCallContext doc pos = Inr (Some inc)
          \<and> readFile e (fsPath doc) = Inr cc
          \<and> findUseByNamespace cc (incNamespace inc) = None
        \<longrightarrow> provideDefinition e doc pos = Inr None)
   \<and> (\<forall>ctx cc u. extractIncludeCallContext doc pos = Inr None
          \<and> extractContext doc pos = Inr (Some ctx)
          \<and> readFile e (currentFilePath ctx) = Inr cc
          \<and> findUseByNamespace cc (namespace ctx) = Some u
          \<and> resolveModule e (usePath u) (currentFilePath ctx) (workspaceRoot ctx) = None
        \<longrightarrow> provideDefinition e doc pos = Inr None)
   \<and> (\<forall>inc cc u root. extractIncludeCallContext doc pos = Inr (Some inc)
          \<and> workspaceFolder doc = Some root
          \<and> readFile e (fsPath doc) = Inr cc
          \<and> findUseByNamespace cc (incNamespace inc) = Some u
          \<and> resolveModule e (usePath u) (fsPath doc) root = None
        \<longrightarrow> provideDefinition e doc pos = Inr None)
   \<and> (\<forall>ctx cc u mp mc fr tf tn tc. extractIncludeCallContext doc pos = Inr None
          \<and> extractContext doc pos = Inr (Some ctx)
          \<and> readFile e (currentFilePath ctx) = Inr cc
          \<and> findUseByNamespace cc (namespace ctx) = Some u
          \<and> resolveModule e (usePath u) (currentFilePath ctx) (workspaceRoot ctx) = Some mp
          \<and> cursorTarget ctx = MemberTarget
          \<and> readFile e mp = Inr mc
          \<and> findForwardedMember e {} mc (member ctx) mp (workspaceRoot ctx) = Inr fr
          \<and> findTarget mp (member ctx) fr = (tf, tn)
          \<and> readFile e tf = Inr tc
          \<and> (if startsWith (member ctx) ''$'' then findVariableDefinition tc tn tf
              else findMixinDefinition tc tn tf) = None
        \<longrightarrow> provideDefinition e doc pos = Inr None)
   \<and> (\<forall>inc root cc u mp mc fr tc. extractIncludeCallContext doc pos = Inr (Some inc)
          \<and> workspaceFolder doc = Some root
          \<and> readFile e (fsPath doc) = Inr cc
          \<and> findUseByNamespace cc (incNamespace inc) = Some u
          \<and> resolveModule e (usePath u) (fsPath doc) root = Some mp
          \<and> readFile e mp = Inr mc
          \<and> findForwardedMember e {} mc (incMixinName inc) mp root = Inr fr
          \<and> readFile e (orElse (map_option forwardedPath fr) mp) = Inr tc
          \<and> (case findMixinDefinition tc (orElse (map_option originalName fr) (incMixinName inc))
                     (orElse (map_option forwardedPath fr) mp) of
                None \<Rightarrow> True
              | Some mixinDef \<Rightarrow>
                  (case parameters mixinDef of
                     None \<Rightarrow> True
                   | Some ps \<Rightarrow> find (\<lambda>p. paramName p = incArgumentName inc) ps = None))
        \<longrightarrow> provideDefinition e doc pos = Inr None)"
proof (intro conjI allI impI)
  show "\<exists>r. provideDefinition e doc pos = Inr r"
    unfolding provideDefinition_def by (rule catchAll_Inr)
next
  fix err assume "provideDefinitionBody e doc pos = Inl err"
  then show "provideDefinition e doc pos = Inr None"
    by (simp add: provideDefinition_def catchAll_def)
next
  fix err assume "readFile e (fsPath doc) = Inl err"
  then show "provideDefinition e doc pos = Inr None" by (rule provideDefinition_unreadable)
next
  fix ctx cc
  assume h: "extractIncludeCallContext doc pos = Inr None
          \<and> extractContext doc pos = Inr (Some ctx)
          \<and> readFile e (currentFilePath ctx) = Inr cc
          \<and> findUseByNamespace cc (namespace ctx) = None"
  then have "resolveDefinition e ctx = Inr None" using resolveDefinition_no_import by blast
  then show "provideDefinition e doc pos = Inr None"
    using h provideDefinition_member_path by metis
next
  fix inc cc
  assume h: "extractIncludeCallContext doc pos = Inr (Some inc)
          \<and> readFile e (fsPath doc) = Inr cc
          \<and> findUseByNamespace cc (incNamespace inc) = None"
  then have "catchAll (resolveArgumentDefinition e inc doc) = Inr None"
    using resolveArgumentDefinition_no_import by blast
  then show "provideDefinition e doc pos = Inr None"
    using h provideDefinition_argument_path by metis
next
  fix ctx cc u
  assume h: "extractIncludeCallContext doc pos = Inr None
          \<and> extractContext doc pos = Inr (Some ctx)
          \<and> readFile e (currentFilePath ctx) = Inr cc
          \<and> findUseByNamespace cc (namespace ctx) = Some u
          \<and> resolveModule e (usePath u) (currentFilePath ctx) (workspaceRoot ctx) = None"
  then have "resolveDefinition e ctx = Inr None" using resolveDefinition_no_module by blast
  then show "provideDefinition e doc pos = Inr None"
    using h provideDefinition_member_path by metis
next
  fix inc cc u root
  assume h: "extractIncludeCallContext doc pos = Inr (Some inc)
          \<and> workspaceFolder doc = Some root
          \<and> readFile e (fsPath doc) = Inr cc
          \<and> findUseByNamespace cc (incNamespace inc) = Some u
          \<and> resolveModule e (usePath u) (fsPath doc) root = None"
  then have "catchAll (resolveArgumentDefinition e inc doc) = Inr None"
    using resolveArgumentDefinition_no_module [of e doc cc inc u] by simp
  then show "provideDefinition e doc pos = Inr None"
    using h provideDefinition_argument_path by metis
next
  fix ctx cc u mp mc fr tf tn tc
  assume h: "extractIncludeCallContext doc pos = Inr None
          \<and> extractContext doc pos = Inr (Some ctx)
          \<and> readFile e (currentFilePath ctx) = Inr cc
          \<and> findUseByNamespace cc (namespace ctx) = Some u
          \<and> resolveModule e (usePath u) (currentFilePath ctx) (workspaceRoot ctx) = Some mp
          \<and> cursorTarget ctx = MemberTarget
          \<and> readFile e mp = Inr mc
          \<and> findForwardedMember e {} mc (member ctx) mp (workspaceRoot ctx) = Inr fr
          \<and> findTarget mp (member ctx) fr = (tf, tn)
          \<and> readFile e tf = Inr tc
          \<and> (if startsWith (member ctx) ''$'' then findVariableDefinition tc tn tf
              else findMixinDefinition tc tn tf) = None"
  then have "resolveDefinition e ctx =
     Inr (map_option locationOf
            (if startsWith (member ctx) ''$'' then findVariableDefinition tc tn tf
             else findMixinDefinition tc tn tf))"
    using resolveDefinition_member [of e ctx cc u mp mc fr tf tn tc] by blast
  then have "resolveDefinition e ctx = Inr None" using h by simp
  then show "provideDefinition e doc pos = Inr None"
    using h provideDefinition_member_path by metis
next
  fix inc root cc u mp mc fr tc
  assume h: "extractIncludeCallContext doc pos = Inr (Some inc)
          \<and> workspaceFolder doc = Some root
          \<and> readFile e (fsPath doc) = Inr cc
          \<and> findUseByNamespace cc (incNamespace inc) = Some u
          \<and> resolveModule e (usePath u) (fsPath doc) root = Some mp
          \<and> readFile e mp = Inr mc
          \<and> findForwardedMember e {} mc (incMixinName inc) mp root = Inr fr
          \<and> readFile e (orElse (map_option forwardedPath fr) mp) = Inr tc
          \<and> (case findMixinDefinition tc (orElse (map_option originalName fr) (incMixinName inc))
                     (orElse (map_option forwardedPath fr) mp) of
                None \<Rightarrow> True
              | Some mixinDef \<Rightarrow>
                  (case parameters mixinDef of
                     None \<Rightarrow> True
                   | Some ps \<Rightarrow> find (\<lambda>p. paramName p = incArgumentName inc) ps = None))"
  then have "resolveArgumentDefinition e inc doc = Inr None"
    using resolveArgumentDefinition_chain [of doc root e cc inc u mp mc fr tc]
    by (auto split: option.splits)
  then have "catchAll (resolveArgumentDefinition e inc doc) = Inr None"
    by (simp add: catchAll_def)
  then show "provideDefinition e doc pos = Inr None"
    using h provideDefinition_argument_path by metis
qed

text \<open>
  A document with a reference for each miss: a mixin the module lacks, a namespace with no
  import, an import of a missing module, and an argument the mixin does not declare.
\<close>

definition missingContent :: string where
  "missingContent = ''@use \"./a\" as m;'' @ [CHR 0x0A] @ ''@use \"./zz\" as z;'' @ [CHR 0x0A]
     @ ''@include m.nope;'' @ [CHR 0x0A] @ ''@include n.go;'' @ [CHR 0x0A]
     @ ''@include z.go;'' @ [CHR 0x0A] @ ''@include m.button($nope: 1);''"

definition missingEnv :: env where
  "missingEnv =
     \<lparr>nodes = [(''/w/main.scss'', File missingContent),
               (''/w/a.scss'', File ''@mixin button($size: medium) {}'')],
      cwd = ''/w'',
      jsonParse = (\<lambda>content. None)\<rparr>"

definition missingDocument :: TextDocument where
  "missingDocument =
     \<lparr>fsPath = ''/w/main.scss'',
      docLines = [''@use \"./a\" as m;'', ''@use \"./zz\" as z;'', ''@include m.nope;'',
                  ''@include n.go;'', ''@include z.go;'', ''@include m.button($nope: 1);''],
      workspaceFolder = Some ''/w''\<rparr>"

theorem provideDefinition_never_throws_witness:
  "provideDefinition missingEnv (missingDocument\<lparr>fsPath := ''/w/gone.scss''\<rparr>)
       \<lparr>posLine = 2, character = 11\<rparr> = Inr None
   \<and> provideDefinition missingEnv missingDocument \<lparr>posLine = 3, character = 11\<rparr> = Inr None
   \<and> provideDefinition missingEnv missingDocument \<lparr>posLine = 4, character = 11\<rparr> = Inr None
   \<and> provideDefinition missingEnv missingDocument \<lparr>posLine = 2, character = 11\<rparr> = Inr None
   \<and> provideDefinition missingEnv missingDocument \<lparr>posLine = 5, character = 19\<rparr> = Inr None
   \<and> provideDefinition missingEnv missingDocument \<lparr>posLine = 9, character = 0\<rparr> = Inr None"
proof -
  let ?m = "\<lparr>usePath = ''./a'', useNamespace = ''m'', useLine = 0\<rparr>"
  let ?z = "\<lparr>usePath = ''./zz'', useNamespace = ''z'', useLine = 1\<rparr>"
  let ?ctx = "\<lambda>ns mem. \<lparr>token = ns @ ''.'' @ mem, namespace = ns, member = mem,
               currentFilePath = ''/w/main.scss'', workspaceRoot = ''/w'',
               cursorTarget = MemberTarget\<rparr>"
  let ?inc = "\<lparr>incNamespace = ''m'', incMixinName = ''button'', incArgumentName = ''nope''\<rparr>"
  have read: "readFile missingEnv ''/w/main.scss'' = Inr missingContent"
    unfolding missingEnv_def by code_simp
  have readA: "readFile missingEnv ''/w/a.scss'' = Inr ''@mixin button($size: medium) {}''"
    unfolding missingEnv_def by code_simp
  have useM: "findUseByNamespace missingContent ''m'' = Some ?m"
    unfolding missingContent_def by code_simp
  have modM: "resolveModule missingEnv ''./a'' ''/w/main.scss'' ''/w'' = Some ''/w/a.scss''"
    unfolding missingEnv_def by code_simp
  have fwd: "\<And>mem. findForwardedMember missingEnv {} ''@mixin button($size: medium) {}'' mem
               ''/w/a.scss'' ''/w'' = Inr None"
    by (rule findForwardedMember_no_forwards) code_simp

  \<comment> \<open>the current file cannot be read\<close>
  have g: "readFile missingEnv (fsPath (missingDocument\<lparr>fsPath := ''/w/gone.scss''\<rparr>))
           = Inl (ReadError ''/w/gone.scss'')"
    unfolding missingEnv_def missingDocument_def by code_simp
  have w1: "provideDefinition missingEnv (missingDocument\<lparr>fsPath := ''/w/gone.scss''\<rparr>)
              \<lparr>posLine = 2, character = 11\<rparr> = Inr None"
    by (rule provideDefinition_never_throws [THEN conjunct2, THEN conjunct2, THEN conjunct1, rule_format, OF g])

  \<comment> \<open>no import for the namespace\<close>
  have i3: "extractIncludeCallContext missingDocument \<lparr>posLine = 3, character = 11\<rparr> = Inr None"
    unfolding missingDocument_def by code_simp
  have c3: "extractContext missingDocument \<lparr>posLine = 3, character = 11\<rparr>
            = Inr (Some (?ctx ''n'' ''go''))"
    unfolding missingDocument_def by code_simp
  have u3: "findUseByNamespace missingContent (namespace (?ctx ''n'' ''go'')) = None"
    unfolding missingContent_def by code_simp
  have r3: "readFile missingEnv (currentFilePath (?ctx ''n'' ''go'')) = Inr missingContent"
    using read by simp
  have w2: "provideDefinition missingEnv missingDocument \<lparr>posLine = 3, character = 11\<rparr> = Inr None"
    by (rule provideDefinition_never_throws [THEN conjunct2, THEN conjunct2, THEN conjunct2, THEN conjunct1, rule_format,
                where ctx = "?ctx ''n'' ''go''" and cc = missingContent])
       (use i3 c3 r3 u3 in simp)

  \<comment> \<open>the module does not resolve\<close>
  have i4: "extractIncludeCallContext missingDocument \<lparr>posLine = 4, character = 11\<rparr> = Inr None"
    unfolding missingDocument_def by code_simp
  have c4: "extractContext missingDocument \<lparr>posLine = 4, character = 11\<rparr>
            = Inr (Some (?ctx ''z'' ''go''))"
    unfolding missingDocument_def by code_simp
  have u4: "findUseByNamespace missingContent (namespace (?ctx ''z'' ''go'')) = Some ?z"
    unfolding missingContent_def by code_simp
  have r4: "readFile missingEnv (currentFilePath (?ctx ''z'' ''go'')) = Inr missingContent"
    using read by simp
  have m4: "resolveModule missingEnv (usePath ?z) (currentFilePath (?ctx ''z'' ''go''))
              (workspaceRoot (?ctx ''z'' ''go'')) = None"
    unfolding missingEnv_def by code_simp
  have w3: "provideDefinition missingEnv missingDocument \<lparr>posLine = 4, character = 11\<rparr> = Inr None"
    by (rule provideDefinition_never_throws [THEN conjunct2, THEN conjunct2, THEN conjunct2, THEN conjunct2, THEN conjunct2, THEN conjunct1, rule_format,
                where ctx = "?ctx ''z'' ''go''" and cc = missingContent and u = ?z])
       (use i4 c4 r4 u4 m4 in simp)

  \<comment> \<open>the module defines no such mixin\<close>
  have i2: "extractIncludeCallContext missingDocument \<lparr>posLine = 2, character = 11\<rparr> = Inr None"
    unfolding missingDocument_def by code_simp
  have c2: "extractContext missingDocument \<lparr>posLine = 2, character = 11\<rparr>
            = Inr (Some (?ctx ''m'' ''nope''))"
    unfolding missingDocument_def by code_simp
  have h2: "readFile missingEnv (currentFilePath (?ctx ''m'' ''nope'')) = Inr missingContent
     \<and> findUseByNamespace missingContent (namespace (?ctx ''m'' ''nope'')) = Some ?m
     \<and> resolveModule missingEnv (usePath ?m) (currentFilePath (?ctx ''m'' ''nope''))
          (workspaceRoot (?ctx ''m'' ''nope'')) = Some ''/w/a.scss''
     \<and> cursorTarget (?ctx ''m'' ''nope'') = MemberTarget
     \<and> readFile missingEnv ''/w/a.scss'' = Inr ''@mixin button($size: medium) {}''
     \<and> findForwardedMember missingEnv {} ''@mixin button($size: medium) {}''
          (member (?ctx ''m'' ''nope'')) ''/w/a.scss'' (workspaceRoot (?ctx ''m'' ''nope'')) = Inr None
     \<and> findTarget ''/w/a.scss'' (member (?ctx ''m'' ''nope'')) None = (''/w/a.scss'', ''nope'')"
    using read useM modM readA fwd by (simp add: findTarget_def)
  have d2: "(if startsWith (member (?ctx ''m'' ''nope'')) ''$''
             then findVariableDefinition ''@mixin button($size: medium) {}'' ''nope'' ''/w/a.scss''
             else findMixinDefinition ''@mixin button($size: medium) {}'' ''nope'' ''/w/a.scss'') = None"
    by code_simp
  have w4: "provideDefinition missingEnv missingDocument \<lparr>posLine = 2, character = 11\<rparr> = Inr None"
    by (rule provideDefinition_never_throws [THEN conjunct2, THEN conjunct2, THEN conjunct2, THEN conjunct2, THEN conjunct2, THEN conjunct2, THEN conjunct2, THEN conjunct1, rule_format,
                where ctx = "?ctx ''m'' ''nope''" and cc = missingContent and u = ?m
                  and mp = "''/w/a.scss''" and mc = "''@mixin button($size: medium) {}''"
                  and fr = None and tf = "''/w/a.scss''" and tn = "''nope''"
                  and tc = "''@mixin button($size: medium) {}''"])
       (use i2 c2 h2 readA d2 in simp)

  \<comment> \<open>the mixin has no such parameter\<close>
  have i5: "extractIncludeCallContext missingDocument \<lparr>posLine = 5, character = 19\<rparr>
            = Inr (Some ?inc)"
    unfolding missingDocument_def by code_simp
  have h5: "workspaceFolder missingDocument = Some ''/w''
     \<and> readFile missingEnv (fsPath missingDocument) = Inr missingContent
     \<and> findUseByNamespace missingContent (incNamespace ?inc) = Some ?m
     \<and> resolveModule missingEnv (usePath ?m) (fsPath missingDocument) ''/w'' = Some ''/w/a.scss''
     \<and> readFile missingEnv ''/w/a.scss'' = Inr ''@mixin button($size: medium) {}''
     \<and> findForwardedMember missingEnv {} ''@mixin button($size: medium) {}''
          (incMixinName ?inc) ''/w/a.scss'' ''/w'' = Inr None
     \<and> readFile missingEnv (orElse (map_option forwardedPath None) ''/w/a.scss'')
          = Inr ''@mixin button($size: medium) {}''"
    using read useM modM readA fwd by (simp add: missingDocument_def orElse_def)
  have p5: "(case findMixinDefinition ''@mixin button($size: medium) {}''
                    (orElse (map_option originalName None) (incMixinName ?inc))
                    (orElse (map_option forwardedPath None) ''/w/a.scss'') of
                None \<Rightarrow> True
              | Some mixinDef \<Rightarrow>
                  (case parameters mixinDef of
                     None \<Rightarrow> True
                   | Some ps \<Rightarrow> find (\<lambda>p. paramName p = incArgumentName ?inc) ps = None))"
    by code_simp
  have w5: "provideDefinition missingEnv missingDocument \<lparr>posLine = 5, character = 19\<rparr> = Inr None"
    by (rule provideDefinition_never_throws [THEN conjunct2, THEN conjunct2, THEN conjunct2, THEN conjunct2, THEN conjunct2, THEN conjunct2, THEN conjunct2, THEN conjunct2, rule_format,
                where inc = ?inc and root = "''/w''" and cc = missingContent and u = ?m
                  and mp = "''/w/a.scss''" and mc = "''@mixin button($size: medium) {}''"
                  and fr = None and tc = "''@mixin button($size: medium) {}''"])
       (use i5 h5 p5 in simp)

  \<comment> \<open>a line the document does not have: \<open>lineAt\<close> throws\<close>
  have b6: "provideDefinitionBody missingEnv missingDocument \<lparr>posLine = 9, character = 0\<rparr>
            = Inl (IllegalLine 9)"
    unfolding missingDocument_def by code_simp
  have w6: "provideDefinition missingEnv missingDocument \<lparr>posLine = 9, character = 0\<rparr> = Inr None"
    by (rule provideDefinition_never_throws [THEN conjunct2, THEN conjunct1, rule_format, OF b6])
  show ?thesis using w1 w2 w3 w4 w5 w6 by simp
qed

end
